theory Spec2Isabelle
  imports Complex_Main "HOL-Library.Sublist" "HOL-Library.AList"
begin

section \<open>JavaScript values\<close>

text \<open>
  The program is \<^verbatim>\<open>src/DataTable.ts\<close>. Its values are the values of the JavaScript
  runtime. Strings are lists of code units; the model covers the code units 0 to 255.
  A Number is an IEEE 754 binary64 value: not-a-number, an infinity, or a finite value,
  which is kept as the rational it denotes. The two zeros are identified (they are
  \<^verbatim>\<open>===\<close> in the language).
\<close>

datatype jsnum = NaN | PInf | NInf | Fin rat

text \<open>
  A \<^verbatim>\<open>Date\<close> holds a time value, the milliseconds since the epoch, or is invalid
  (\<open>None\<close>). Plain objects keep their own properties in insertion order.
  \<open>VBuiltin n\<close> is the member \<open>n\<close> that every plain object inherits from
  \<^verbatim>\<open>Object.prototype\<close>.
\<close>

datatype "value" =
    VUndefined
  | VNull
  | VBool bool
  | VNum jsnum
  | VStr string
  | VDate "int option"
  | VObj "(string \<times> value) list"
  | VArr "value list"
  | VBuiltin string

subsection \<open>Rounding to binary64\<close>

text \<open>Powers with an integer exponent, by repeated squaring.\<close>

function ipow :: "int \<Rightarrow> int \<Rightarrow> int" where
  "ipow b e =
     (if e \<le> 0 then 1
      else if even e then (let h = ipow b (e div 2) in h * h)
      else b * ipow b (e - 1))"
  by pat_completeness auto
termination
  by (relation "measure (\<lambda>(b, e). nat e)") auto

declare ipow.simps [simp del]

definition pow2 :: "int \<Rightarrow> rat" where
  "pow2 e = (if 0 \<le> e then of_int (ipow 2 e) else 1 / of_int (ipow 2 (- e)))"

definition pow10 :: "int \<Rightarrow> rat" where
  "pow10 e = (if 0 \<le> e then of_int (ipow 10 e) else 1 / of_int (ipow 10 (- e)))"

function nbits :: "int \<Rightarrow> int" where
  "nbits n = (if n \<le> 0 then 0 else 1 + nbits (n div 2))"
  by pat_completeness auto
termination
  by (relation "measure nat") auto

declare nbits.simps [simp del]

text \<open>For \<open>0 < q\<close>, \<open>ilog2 q\<close> is the exponent \<open>e\<close> with \<open>2 ^ e \<le> q < 2 ^ (e + 1)\<close>.\<close>

definition ilog2 :: "rat \<Rightarrow> int" where
  "ilog2 q =
     (let e0 = nbits (fst (quotient_of q)) - nbits (snd (quotient_of q))
      in if pow2 e0 \<le> q then e0 else e0 - 1)"

definition round_half_even :: "rat \<Rightarrow> int" where
  "round_half_even q =
     (let f = \<lfloor>q\<rfloor>; d = q - of_int f
      in if d < 1 / 2 then f else if 1 / 2 < d then f + 1 else if even f then f else f + 1)"

text \<open>
  Round to nearest, ties to even, with 53 bits of precision, gradual underflow below
  \<open>2 ^ - 1022\<close> and overflow to infinity from \<open>2 ^ 1024\<close>.
\<close>

definition rnd_pos :: "rat \<Rightarrow> jsnum" where
  "rnd_pos q =
     (let e = max (ilog2 q) (- 1022);
          ulp = pow2 (e - 52);
          r = of_int (round_half_even (q / ulp)) * ulp
      in if pow2 1024 \<le> r then PInf else Fin r)"

fun js_neg :: "jsnum \<Rightarrow> jsnum" where
  "js_neg NaN = NaN"
| "js_neg PInf = NInf"
| "js_neg NInf = PInf"
| "js_neg (Fin q) = Fin (- q)"

definition rnd :: "rat \<Rightarrow> jsnum" where
  "rnd q = (if q = 0 then Fin 0 else if q < 0 then js_neg (rnd_pos (- q)) else rnd_pos q)"

subsection \<open>Arithmetic and comparison on Numbers\<close>

fun js_add :: "jsnum \<Rightarrow> jsnum \<Rightarrow> jsnum" where
  "js_add NaN _ = NaN"
| "js_add _ NaN = NaN"
| "js_add PInf NInf = NaN"
| "js_add NInf PInf = NaN"
| "js_add PInf _ = PInf"
| "js_add _ PInf = PInf"
| "js_add NInf _ = NInf"
| "js_add _ NInf = NInf"
| "js_add (Fin a) (Fin b) = rnd (a + b)"

definition js_sub :: "jsnum \<Rightarrow> jsnum \<Rightarrow> jsnum" where
  "js_sub a b = js_add a (js_neg b)"

text \<open>\<^verbatim>\<open>a >= b\<close> on Numbers; false as soon as one side is not-a-number.\<close>

fun js_ge :: "jsnum \<Rightarrow> jsnum \<Rightarrow> bool" where
  "js_ge NaN _ = False"
| "js_ge _ NaN = False"
| "js_ge PInf _ = True"
| "js_ge _ NInf = True"
| "js_ge NInf _ = False"
| "js_ge _ PInf = False"
| "js_ge (Fin a) (Fin b) = (b \<le> a)"

subsection \<open>Characters\<close>

definition is_digit :: "char \<Rightarrow> bool" where
  "is_digit c = (c \<in> set ''0123456789'')"

definition digit_val :: "char \<Rightarrow> int" where
  "digit_val c = (case map_of (zip ''0123456789'' [0, 1, 2, 3, 4, 5, 6, 7, 8, 9]) c of Some d \<Rightarrow> d | None \<Rightarrow> 0)"

definition dec_val :: "string \<Rightarrow> int" where
  "dec_val ds = foldl (\<lambda>a c. 10 * a + digit_val c) 0 ds"

text \<open>The white space and line terminators of the language among the code units 0 to 255.\<close>

definition is_ws :: "char \<Rightarrow> bool" where
  "is_ws c = (c \<in> set [CHR 0x09, CHR 0x0A, CHR 0x0B, CHR 0x0C, CHR 0x0D, CHR 0x20, CHR 0xA0])"

definition trim :: "string \<Rightarrow> string" where
  "trim s = rev (dropWhile is_ws (rev (dropWhile is_ws s)))"

definition to_lower :: "char \<Rightarrow> char" where
  "to_lower c =
     (case map_of (zip ''ABCDEFGHIJKLMNOPQRSTUVWXYZ'' ''abcdefghijklmnopqrstuvwxyz'') c of
        Some l \<Rightarrow> l
      | None \<Rightarrow> c)"

text \<open>
  \<^verbatim>\<open>String.prototype.toLowerCase\<close> on the code units below 256: besides the letters
  A to Z it folds the capital letters of Latin-1 (0xC0 to 0xDE, the multiplication sign
  0xD7 excepted), each to the code unit 32 above it.
\<close>

definition lower_char :: "char \<Rightarrow> char" where
  "lower_char c =
     (let n = (of_char c :: int)
      in if 192 \<le> n \<and> n \<le> 222 \<and> n \<noteq> 215 then char_of (n + 32) else to_lower c)"

definition toLowerCase :: "string \<Rightarrow> string" where
  "toLowerCase s = map lower_char s"

subsection \<open>String to Number: unary plus and \<^verbatim>\<open>parseFloat\<close>\<close>

text \<open>
  \<open>scan_exponent\<close> reads an ExponentPart, \<open>scan_unsigned\<close> the longest prefix that is
  a StrUnsignedDecimalLiteral, \<open>scan_decimal\<close> the longest prefix that is a
  StrDecimalLiteral. Each returns what it read and the rest of the string. The
  mathematical value of a literal is rounded once.
\<close>

definition sign_of :: "string \<Rightarrow> bool \<times> string" where
  "sign_of s =
     (case s of
        [] \<Rightarrow> (False, [])
      | c # r \<Rightarrow>
          if c = CHR ''-'' then (True, r) else if c = CHR ''+'' then (False, r) else (False, s))"

definition scan_exponent :: "string \<Rightarrow> (int \<times> string) option" where
  "scan_exponent s =
     (case s of
        [] \<Rightarrow> None
      | c # r \<Rightarrow>
          if c = CHR ''e'' \<or> c = CHR ''E'' then
            (let ds = takeWhile is_digit (snd (sign_of r))
             in if ds = [] then None
                else Some (if fst (sign_of r) then - dec_val ds else dec_val ds,
                           dropWhile is_digit (snd (sign_of r))))
          else None)"

text \<open>The digits after a decimal point, if there is a point, and the rest.\<close>

definition frac_of :: "string \<Rightarrow> string \<times> string" where
  "frac_of s =
     (case s of
        [] \<Rightarrow> ([], [])
      | c # r \<Rightarrow>
          if c = CHR ''.'' then (takeWhile is_digit r, dropWhile is_digit r) else ([], s))"

definition scan_unsigned :: "string \<Rightarrow> (rat option \<times> string) option" where
  "scan_unsigned s =
     (if take 8 s = ''Infinity'' then Some (None, drop 8 s)
      else
        let ip = takeWhile is_digit s;
            fp = fst (frac_of (dropWhile is_digit s));
            r2 = snd (frac_of (dropWhile is_digit s));
            m = rat_of_int (dec_val (ip @ fp))
        in if ip = [] \<and> fp = [] then None
           else (case scan_exponent r2 of
                   Some (e, r3) \<Rightarrow> Some (Some (m * pow10 (e - int (length fp))), r3)
                 | None \<Rightarrow> Some (Some (m * pow10 (- int (length fp))), r2)))"

definition scan_decimal :: "string \<Rightarrow> (jsnum \<times> string) option" where
  "scan_decimal s =
     (case scan_unsigned (snd (sign_of s)) of
        None \<Rightarrow> None
      | Some (None, r) \<Rightarrow> Some (if fst (sign_of s) then NInf else PInf, r)
      | Some (Some q, r) \<Rightarrow> Some (rnd (if fst (sign_of s) then - q else q), r))"

text \<open>Binary, octal and hexadecimal integer literals: a prefix and at least one digit.\<close>

definition radix_digit :: "int \<Rightarrow> char \<Rightarrow> int option" where
  "radix_digit b c =
     (case map_of (zip ''0123456789abcdef'' [0, 1, 2, 3, 4, 5, 6, 7, 8, 9, 10, 11, 12, 13, 14, 15]) (to_lower c) of
        Some d \<Rightarrow> if d < b then Some d else None
      | None \<Rightarrow> None)"

definition radix_val :: "int \<Rightarrow> string \<Rightarrow> int" where
  "radix_val b ds = foldl (\<lambda>a c. b * a + the (radix_digit b c)) 0 ds"

definition nondecimal :: "string \<Rightarrow> int option" where
  "nondecimal t =
     (case t of
        z # p # ds \<Rightarrow>
          if z = CHR ''0'' \<and> ds \<noteq> [] then
            (let b = (if to_lower p = CHR ''x'' then 16
                      else if to_lower p = CHR ''o'' then 8
                      else if to_lower p = CHR ''b'' then 2 else (0::int))
             in if b \<noteq> 0 \<and> list_all (\<lambda>c. radix_digit b c \<noteq> None) ds
                then Some (radix_val b ds) else None)
          else None
      | _ \<Rightarrow> None)"

text \<open>\<^verbatim>\<open>+str\<close>: the whole trimmed string must be a numeric literal; the empty one is 0.\<close>

definition to_number :: "string \<Rightarrow> jsnum" where
  "to_number s =
     (let t = trim s
      in if t = [] then Fin 0
         else case nondecimal t of
                Some n \<Rightarrow> rnd (rat_of_int n)
              | None \<Rightarrow>
                  (case scan_decimal t of
                     Some (v, r) \<Rightarrow> if r = [] then v else NaN
                   | None \<Rightarrow> NaN))"

text \<open>\<^verbatim>\<open>parseFloat(str)\<close>: the longest decimal literal after leading white space.\<close>

definition parseFloat :: "string \<Rightarrow> jsnum" where
  "parseFloat s =
     (case scan_decimal (dropWhile is_ws s) of
        Some (v, r) \<Rightarrow> v
      | None \<Rightarrow> NaN)"

subsection \<open>Dates\<close>

text \<open>
  \<^verbatim>\<open>Date.UTC\<close> after the language definition: day arithmetic on the proleptic
  Gregorian calendar, a year from 0 to 99 read as 1900 plus that year, month and day
  overflow carried over, and the result clipped to the range of valid time values.
\<close>

definition DayFromYear :: "int \<Rightarrow> int" where
  "DayFromYear y =
     365 * (y - 1970) + (y - 1969) div 4 - (y - 1901) div 100 + (y - 1601) div 400"

definition InLeapYear :: "int \<Rightarrow> bool" where
  "InLeapYear y = (y mod 4 = 0 \<and> (y mod 100 \<noteq> 0 \<or> y mod 400 = 0))"

definition month_start :: "int \<Rightarrow> int \<Rightarrow> int" where
  "month_start y m =
     [0, 31, 59, 90, 120, 151, 181, 212, 243, 273, 304, 334] ! nat m
       + (if InLeapYear y \<and> 2 \<le> m then 1 else 0)"

definition MakeDay :: "int \<Rightarrow> int \<Rightarrow> int \<Rightarrow> int" where
  "MakeDay year month date =
     (let ym = year + month div 12; mn = month mod 12
      in DayFromYear ym + month_start ym mn + date - 1)"

definition MakeTime :: "int \<Rightarrow> int \<Rightarrow> int \<Rightarrow> int \<Rightarrow> int" where
  "MakeTime h m s ms = h * 3600000 + m * 60000 + s * 1000 + ms"

definition TimeClip :: "int \<Rightarrow> int option" where
  "TimeClip t = (if 8640000000000000 < \<bar>t\<bar> then None else Some t)"

text \<open>The integer part of a finite Number, towards zero.\<close>

definition to_integer :: "jsnum \<Rightarrow> int option" where
  "to_integer x =
     (case x of Fin q \<Rightarrow> Some (if 0 \<le> q then \<lfloor>q\<rfloor> else - \<lfloor>- q\<rfloor>) | _ \<Rightarrow> None)"

definition Date_UTC ::
  "jsnum \<Rightarrow> jsnum \<Rightarrow> jsnum \<Rightarrow> jsnum \<Rightarrow> jsnum \<Rightarrow> jsnum \<Rightarrow> jsnum \<Rightarrow> int option" where
  "Date_UTC year month date hours minutes seconds ms =
     (case (to_integer year, to_integer month, to_integer date, to_integer hours,
            to_integer minutes, to_integer seconds, to_integer ms) of
        (Some y, Some m, Some d, Some h, Some mi, Some s, Some milli) \<Rightarrow>
          (let yr = (if 0 \<le> y \<and> y \<le> 99 then 1900 + y else y)
           in TimeClip (MakeDay yr m d * 86400000 + MakeTime h mi s milli))
      | _ \<Rightarrow> None)"

subsection \<open>Predicates on Numbers and strings used in the statements\<close>

definition nonneg :: "jsnum \<Rightarrow> bool" where
  "nonneg x = (case x of PInf \<Rightarrow> True | Fin r \<Rightarrow> 0 \<le> r | _ \<Rightarrow> False)"

definition is_finite :: "jsnum \<Rightarrow> bool" where
  "is_finite x = (case x of Fin r \<Rightarrow> True | _ \<Rightarrow> False)"

text \<open>A string that is empty or starts with white space ends every numeric literal.\<close>

definition stop :: "string \<Rightarrow> bool" where
  "stop w = (w = [] \<or> is_ws (hd w))"

definition is_blank :: "string \<Rightarrow> bool" where
  "is_blank s = (trim s = [])"

text \<open>A binary, octal or hexadecimal integer literal between optional white space.\<close>

definition is_radix_literal :: "string \<Rightarrow> bool" where
  "is_radix_literal s = (nondecimal (trim s) \<noteq> None)"

section \<open>Type inference: \<^verbatim>\<open>parseBooleans\<close>, \<^verbatim>\<open>parseNumbers\<close>, \<^verbatim>\<open>parseDates\<close>\<close>

text \<open>
  The regular expressions of the source, as matchers. \<open>re_bool\<close> is
  \<^verbatim>\<open>/^(?:true|false)$/i\<close>. \<open>re_date\<close> is
  \<^verbatim>\<open>/^(\d{4})-(\d{2})-(\d{2})T(\d{2}):(\d{2}):(\d{2})\.*(\d*)Z$/\<close> and returns
  the seven captured groups; \<open>digitsN n\<close> is \<^verbatim>\<open>(\d{n})\<close> and \<open>lit c\<close> a literal
  character, each applied to what the match before left over.
\<close>

definition re_bool :: "string \<Rightarrow> bool" where
  "re_bool s = (toLowerCase s = ''true'' \<or> toLowerCase s = ''false'')"

definition digitsN :: "nat \<Rightarrow> string \<Rightarrow> (string \<times> string) option" where
  "digitsN n s =
     (if n \<le> length s \<and> list_all is_digit (take n s) then Some (take n s, drop n s) else None)"

definition lit :: "char \<Rightarrow> string \<Rightarrow> string option" where
  "lit c s = (case s of [] \<Rightarrow> None | x # r \<Rightarrow> if x = c then Some r else None)"

definition re_date_head :: "string \<Rightarrow> (string list \<times> string) option" where
  "re_date_head s =
     Option.bind (digitsN 4 s) (\<lambda>(y, s1).
     Option.bind (lit CHR ''-'' s1) (\<lambda>s2.
     Option.bind (digitsN 2 s2) (\<lambda>(mo, s3).
     Option.bind (lit CHR ''-'' s3) (\<lambda>s4.
     Option.bind (digitsN 2 s4) (\<lambda>(d, s5).
     Option.bind (lit CHR ''T'' s5) (\<lambda>s6.
     Option.bind (digitsN 2 s6) (\<lambda>(h, s7).
     Option.bind (lit CHR '':'' s7) (\<lambda>s8.
     Option.bind (digitsN 2 s8) (\<lambda>(mi, s9).
     Option.bind (lit CHR '':'' s9) (\<lambda>s10.
     Option.bind (digitsN 2 s10) (\<lambda>(sec, s11).
       Some ([y, mo, d, h, mi, sec], s11))))))))))))"

definition re_date :: "string \<Rightarrow> string list option" where
  "re_date s =
     (case re_date_head s of
        None \<Rightarrow> None
      | Some (gs, r) \<Rightarrow>
          (let r1 = dropWhile (\<lambda>c. c = CHR ''.'') r
           in if dropWhile is_digit r1 = ''Z'' then Some (gs @ [takeWhile is_digit r1])
              else None))"

text \<open>
  The pattern as the specification writes it, with \<^verbatim>\<open>\.?\<close> where the source has
  \<^verbatim>\<open>\.*\<close>: at most one dot before the fraction.
\<close>

definition spec_re_date :: "string \<Rightarrow> string list option" where
  "spec_re_date s =
     (case re_date_head s of
        None \<Rightarrow> None
      | Some (gs, r) \<Rightarrow>
          (let r1 = (if r \<noteq> [] \<and> hd r = CHR ''.'' then tl r else r)
           in if dropWhile is_digit r1 = ''Z'' then Some (gs @ [takeWhile is_digit r1])
              else None))"

definition parseNumbers :: "string \<Rightarrow> value" where
  "parseNumbers str =
     (let isNumber = js_ge (js_add (js_sub (to_number str) (parseFloat str)) (Fin 1)) (Fin 0)
      in if isNumber then VNum (to_number str) else VNull)"

definition parseBooleans :: "string \<Rightarrow> value" where
  "parseBooleans str =
     (if re_bool str then VBool (toLowerCase str = ''true'') else VNull)"

definition parseDates :: "string \<Rightarrow> value" where
  "parseDates str =
     (case re_date str of
        None \<Rightarrow> VNull
      | Some dateParts \<Rightarrow>
          VDate (Date_UTC (to_number (dateParts ! 0))
                          (js_sub (to_number (dateParts ! 1)) (Fin 1))
                          (to_number (dateParts ! 2))
                          (to_number (dateParts ! 3))
                          (to_number (dateParts ! 4))
                          (to_number (dateParts ! 5))
                          (to_number (dateParts ! 6))))"

text \<open>
  \<^verbatim>\<open>parseValue\<close> looks at strings only; \<^verbatim>\<open>parseXmlValue\<close> has no such guard and
  hands whatever the element's text is to the three checks, where a text that is
  absent (\<^verbatim>\<open>null\<close>) is read as the string \<^verbatim>\<open>null\<close> by the regular expressions
  and as 0 by the unary plus.
\<close>

definition parseValue :: "value \<Rightarrow> value" where
  "parseValue str =
     (case str of
        VStr s \<Rightarrow>
          (let parsedValue = parseBooleans s;
               parsedValue = (if parsedValue = VNull then parseNumbers s else parsedValue);
               parsedValue = (if parsedValue = VNull then parseDates s else parsedValue)
           in if parsedValue \<noteq> VNull then parsedValue else str)
      | _ \<Rightarrow> str)"

definition parseXmlValue :: "string option \<Rightarrow> value" where
  "parseXmlValue strValue =
     (case strValue of
        Some s \<Rightarrow>
          (let parsedValue = parseBooleans s;
               parsedValue = (if parsedValue = VNull then parseNumbers s else parsedValue);
               parsedValue = (if parsedValue = VNull then parseDates s else parsedValue)
           in if parsedValue \<noteq> VNull then parsedValue else VStr s)
      | None \<Rightarrow> VNull)"

section \<open>Values as strings\<close>

subsection \<open>Number to string\<close>

definition digit_char :: "int \<Rightarrow> char" where
  "digit_char d = ''0123456789'' ! nat d"

function dec_digits :: "int \<Rightarrow> string" where
  "dec_digits n = (if n < 10 then [digit_char n] else dec_digits (n div 10) @ [digit_char (n mod 10)])"
  by pat_completeness auto
termination
  by (relation "measure nat") auto

declare dec_digits.simps [simp del]

text \<open>For \<open>0 < q\<close>, \<open>ilog10 q\<close> is the \<open>n\<close> with \<open>10 ^ (n - 1) \<le> q < 10 ^ n\<close>.\<close>

definition ilog10 :: "rat \<Rightarrow> int" where
  "ilog10 q =
     (let e0 = int (length (dec_digits (fst (quotient_of q))))
                 - int (length (dec_digits (snd (quotient_of q))))
      in if pow10 e0 \<le> q then e0 + 1 else e0)"

text \<open>
  The decimal digits of a positive finite Number \<open>x\<close>, after the language definition:
  integers \<open>n\<close>, \<open>k\<close>, \<open>s\<close> with \<open>k\<close> digits in \<open>s\<close>, \<open>s * 10 ^ (n - k)\<close> rounding to
  \<open>x\<close>, and \<open>k\<close> as small as possible; of two such \<open>s\<close> the one nearer to \<open>x\<close>.
  \<open>digits_at x n k\<close> looks for \<open>s\<close> at a given \<open>k\<close>.
\<close>

definition reads_as :: "rat \<Rightarrow> int \<Rightarrow> int \<Rightarrow> bool" where
  "reads_as x s e = (rnd (of_int s * pow10 e) = Fin x)"

definition digits_at :: "rat \<Rightarrow> int \<Rightarrow> int \<Rightarrow> (int \<times> int) option" where
  "digits_at x n k =
     (let s0 = \<lfloor>x / pow10 (n - k)\<rfloor>;
          lo = (ipow 10 (k - 1) \<le> s0 \<and> reads_as x s0 (n - k));
          up = (s0 + 1 < ipow 10 k \<and> reads_as x (s0 + 1) (n - k));
          d0 = x - of_int s0 * pow10 (n - k);
          d1 = of_int (s0 + 1) * pow10 (n - k) - x
      in if lo \<and> (\<not> up \<or> d0 < d1 \<or> (d0 = d1 \<and> even s0)) then Some (n, s0)
         else if up then Some (n, s0 + 1)
         else if s0 + 1 = ipow 10 k \<and> reads_as x (ipow 10 (k - 1)) (n + 1 - k)
              then Some (n + 1, ipow 10 (k - 1))
         else None)"

function find_digits :: "rat \<Rightarrow> int \<Rightarrow> int \<Rightarrow> int \<times> int \<times> int" where
  "find_digits x n k =
     (if 17 \<le> k then (n, 17, round_half_even (x / pow10 (n - 17)))
      else case digits_at x n k of
             Some (n', s) \<Rightarrow> (n', k, s)
           | None \<Rightarrow> find_digits x n (k + 1))"
  by pat_completeness auto
termination
  by (relation "measure (\<lambda>(x, n, k). nat (17 - k))") auto

declare find_digits.simps [simp del]

definition format_digits :: "int \<Rightarrow> int \<Rightarrow> string \<Rightarrow> string" where
  "format_digits n k ds =
     (if k \<le> n \<and> n \<le> 21 then ds @ replicate (nat (n - k)) CHR ''0''
      else if 0 < n \<and> n \<le> 21 then take (nat n) ds @ ''.'' @ drop (nat n) ds
      else if - 6 < n \<and> n \<le> 0 then ''0.'' @ replicate (nat (- n)) CHR ''0'' @ ds
      else (if k = 1 then ds else hd ds # ''.'' @ tl ds)
             @ ''e'' @ (if n - 1 < 0 then ''-'' else ''+'') @ dec_digits \<bar>n - 1\<bar>)"

definition positive_toString :: "rat \<Rightarrow> string" where
  "positive_toString x =
     (case find_digits x (ilog10 x) 1 of (n, k, s) \<Rightarrow> format_digits n k (dec_digits s))"

definition Number_toString :: "jsnum \<Rightarrow> string" where
  "Number_toString x =
     (case x of
        NaN \<Rightarrow> ''NaN''
      | PInf \<Rightarrow> ''Infinity''
      | NInf \<Rightarrow> ''-Infinity''
      | Fin q \<Rightarrow>
          if q = 0 then ''0''
          else if q < 0 then ''-'' @ positive_toString (- q)
          else positive_toString q)"

subsection \<open>Date to string\<close>

definition pad :: "nat \<Rightarrow> string \<Rightarrow> string" where
  "pad n s = replicate (n - length s) CHR ''0'' @ s"

definition YearFromDay :: "int \<Rightarrow> int" where
  "YearFromDay d =
     (let y0 = 1970 + (d * 400) div 146097
      in if d < DayFromYear y0 then y0 - 1
         else if DayFromYear (y0 + 1) \<le> d then y0 + 1
         else y0)"

definition MonthFromDay :: "int \<Rightarrow> int \<Rightarrow> int" where
  "MonthFromDay y dayInYear =
     foldl (\<lambda>acc m. if month_start y m \<le> dayInYear then m else acc) 0
       [1, 2, 3, 4, 5, 6, 7, 8, 9, 10, 11]"

definition time_string :: "int \<Rightarrow> string" where
  "time_string t =
     (let msInDay = t mod 86400000
      in pad 2 (dec_digits (msInDay div 3600000)) @ '':''
         @ pad 2 (dec_digits (msInDay div 60000 mod 60)) @ '':''
         @ pad 2 (dec_digits (msInDay div 1000 mod 60)))"

text \<open>\<^verbatim>\<open>Date.prototype.toISOString\<close> on a valid time value.\<close>

definition toISOString :: "int \<Rightarrow> string" where
  "toISOString t =
     (let day = t div 86400000;
          y = YearFromDay day;
          dayInYear = day - DayFromYear y;
          m = MonthFromDay y dayInYear;
          date = dayInYear - month_start y m + 1;
          year = (if 0 \<le> y \<and> y \<le> 9999 then pad 4 (dec_digits y)
                  else (if y < 0 then ''-'' else ''+'') @ pad 6 (dec_digits \<bar>y\<bar>))
      in year @ ''-'' @ pad 2 (dec_digits (m + 1)) @ ''-'' @ pad 2 (dec_digits date)
         @ ''T'' @ time_string t @ ''.'' @ pad 3 (dec_digits (t mod 1000)) @ ''Z'')"

text \<open>
  \<^verbatim>\<open>Date.prototype.toString\<close> depends on the time zone of the process; the model
  takes the zone to be UTC.
\<close>

definition Date_toString :: "int option \<Rightarrow> string" where
  "Date_toString tv =
     (case tv of
        None \<Rightarrow> ''Invalid Date''
      | Some t \<Rightarrow>
          (let day = t div 86400000;
               y = YearFromDay day;
               dayInYear = day - DayFromYear y;
               m = MonthFromDay y dayInYear;
               date = dayInYear - month_start y m + 1
           in [''Sun'', ''Mon'', ''Tue'', ''Wed'', ''Thu'', ''Fri'', ''Sat''] ! nat ((day + 4) mod 7)
              @ '' ''
              @ [''Jan'', ''Feb'', ''Mar'', ''Apr'', ''May'', ''Jun'',
                 ''Jul'', ''Aug'', ''Sep'', ''Oct'', ''Nov'', ''Dec''] ! nat m
              @ '' '' @ pad 2 (dec_digits date)
              @ '' '' @ (if y < 0 then ''-'' else []) @ pad 4 (dec_digits \<bar>y\<bar>)
              @ '' '' @ time_string t @ '' GMT+0000 (Coordinated Universal Time)''))"

subsection \<open>Plain objects and their properties\<close>

text \<open>
  A plain object is the list of its own properties. Reading a property that the object
  does not own finds the members of \<^verbatim>\<open>Object.prototype\<close>. Assigning to
  \<^verbatim>\<open>__proto__\<close> on an object that does not own such a property runs the inherited
  setter and creates no property; the change of prototype that the setter makes for an
  object or \<^verbatim>\<open>null\<close> is not followed by the model.
\<close>

definition Object_prototype_keys :: "string list" where
  "Object_prototype_keys =
     [''constructor'', ''__defineGetter__'', ''__defineSetter__'', ''hasOwnProperty'',
      ''__lookupGetter__'', ''__lookupSetter__'', ''isPrototypeOf'',
      ''propertyIsEnumerable'', ''toString'', ''valueOf'', ''__proto__'', ''toLocaleString'']"

definition js_get :: "(string \<times> value) list \<Rightarrow> string \<Rightarrow> value" where
  "js_get obj k =
     (case map_of obj k of
        Some v \<Rightarrow> v
      | None \<Rightarrow> if k \<in> set Object_prototype_keys then VBuiltin k else VUndefined)"

text \<open>
  The own properties are listed in the order in which JavaScript enumerates them: the
  names that are array indices first, in ascending order of the index, then the other
  names in the order of their creation. \<open>define_own\<close> creates a property or gives a
  new value to the one that is there, which keeps its place.
\<close>

definition is_array_index :: "string \<Rightarrow> bool" where
  "is_array_index k =
     (k \<noteq> [] \<and> list_all is_digit k \<and> (hd k \<noteq> CHR ''0'' \<or> k = ''0'') \<and> dec_val k \<le> 4294967294)"

fun insert_index :: "string \<Rightarrow> value \<Rightarrow> (string \<times> value) list \<Rightarrow> (string \<times> value) list" where
  "insert_index k v [] = [(k, v)]"
| "insert_index k v (p # ps) =
     (if is_array_index (fst p) \<and> dec_val (fst p) < dec_val k then p # insert_index k v ps
      else (k, v) # p # ps)"

definition define_own :: "(string \<times> value) list \<Rightarrow> string \<Rightarrow> value \<Rightarrow> (string \<times> value) list" where
  "define_own obj k v =
     (if map_of obj k = None \<and> is_array_index k then insert_index k v obj
      else AList.update k v obj)"

definition js_set :: "(string \<times> value) list \<Rightarrow> string \<Rightarrow> value \<Rightarrow> (string \<times> value) list" where
  "js_set obj k v =
     (if k = ''__proto__'' \<and> map_of obj k = None then obj else define_own obj k v)"

definition js_delete :: "(string \<times> value) list \<Rightarrow> string \<Rightarrow> (string \<times> value) list" where
  "js_delete obj k = AList.delete k obj"

text \<open>
  Reading a member of any value, for the names \<^verbatim>\<open>rows\<close>, \<^verbatim>\<open>type\<close> and
  \<^verbatim>\<open>value\<close> that the source reads: only a plain object can have them.
\<close>

definition js_member :: "value \<Rightarrow> string \<Rightarrow> value" where
  "js_member v k = (case v of VObj ps \<Rightarrow> js_get ps k | _ \<Rightarrow> VUndefined)"

definition js_truthy :: "value \<Rightarrow> bool" where
  "js_truthy v =
     (case v of
        VUndefined \<Rightarrow> False
      | VNull \<Rightarrow> False
      | VBool b \<Rightarrow> b
      | VNum x \<Rightarrow> x \<noteq> NaN \<and> x \<noteq> Fin 0
      | VStr s \<Rightarrow> s \<noteq> []
      | _ \<Rightarrow> True)"

text \<open>
  The string of a value, as \<^verbatim>\<open>value.toString()\<close> and as the conversion to a property
  key give it. Objects are plain data objects whose \<^verbatim>\<open>toString\<close> and \<^verbatim>\<open>valueOf\<close> are
  the inherited ones: they answer \<^verbatim>\<open>[object Object]\<close>. The inherited member
  \<^verbatim>\<open>constructor\<close> is the function \<^verbatim>\<open>Object\<close>, and \<^verbatim>\<open>__proto__\<close> reads as the prototype
  object.
\<close>

fun toString_value :: "value \<Rightarrow> string" and join_values :: "value list \<Rightarrow> string" where
  "toString_value VUndefined = ''undefined''"
| "toString_value VNull = ''null''"
| "toString_value (VBool b) = (if b then ''true'' else ''false'')"
| "toString_value (VNum x) = Number_toString x"
| "toString_value (VStr s) = s"
| "toString_value (VDate t) = Date_toString t"
| "toString_value (VObj ps) = ''[object Object]''"
| "toString_value (VArr xs) = join_values xs"
| "toString_value (VBuiltin k) =
     (if k = ''__proto__'' then ''[object Object]''
      else ''function '' @ (if k = ''constructor'' then ''Object'' else k) @ ''() { [native code] }'')"
| "join_values [] = []"
| "join_values (x # xs) =
     (if x = VNull \<or> x = VUndefined then [] else toString_value x)
       @ (if xs = [] then [] else '','' @ join_values xs)"

section \<open>The table and its column operations\<close>

type_synonym row = "(string \<times> value) list"

record DataTable =
  name :: "value"
  rows :: "row list"

text \<open>
  One turn of the loop of \<^verbatim>\<open>lookup\<close>. The resolver is a function of the row it is
  given. A turn yields the lookup key, the resolved value, whether the resolver was
  invoked, the row as written back, and the cache.
\<close>

record turn =
  lookupValue :: "value"
  resolvedValue :: "value"
  invoked :: bool
  row_out :: row

text \<open>A lookup key that is neither \<^verbatim>\<open>undefined\<close> nor \<^verbatim>\<open>null\<close>, and the string of
  the lookup key of a row.\<close>

definition present :: "value \<Rightarrow> bool" where
  "present lv = (lv \<noteq> VUndefined \<and> lv \<noteq> VNull)"

definition key_string :: "row \<Rightarrow> string \<Rightarrow> string" where
  "key_string r columnName = toString_value (js_get r columnName)"

definition cache_hit :: "bool \<Rightarrow> row \<Rightarrow> value \<Rightarrow> bool" where
  "cache_hit useCache cache lv =
     (useCache \<and> lv \<noteq> VUndefined \<and> lv \<noteq> VNull \<and> js_get cache (toString_value lv) \<noteq> VUndefined)"

definition write_back :: "row \<Rightarrow> string \<Rightarrow> value \<Rightarrow> row" where
  "write_back currentRow columnName resolved =
     (if resolved = VUndefined then
        (if js_get currentRow columnName \<noteq> VUndefined then js_delete currentRow columnName
         else currentRow)
      else js_set currentRow columnName resolved)"

fun lookup_loop :: "string \<Rightarrow> (row \<Rightarrow> value) \<Rightarrow> bool \<Rightarrow> row \<Rightarrow> row list \<Rightarrow> turn list" where
  "lookup_loop columnName updater useCache cache [] = []"
| "lookup_loop columnName updater useCache cache (currentRow # rest) =
     (let lv = js_get currentRow columnName
      in if cache_hit useCache cache lv then
           (let resolved = js_get cache (toString_value lv)
            in \<lparr>lookupValue = lv, resolvedValue = resolved, invoked = False,
                 row_out = write_back currentRow columnName resolved\<rparr>
               # lookup_loop columnName updater useCache cache rest)
         else
           (let resolved = updater currentRow;
                cache' = (if useCache \<and> lv \<noteq> VUndefined \<and> lv \<noteq> VNull
                          then js_set cache (toString_value lv) resolved else cache)
            in \<lparr>lookupValue = lv, resolvedValue = resolved, invoked = True,
                 row_out = write_back currentRow columnName resolved\<rparr>
               # lookup_loop columnName updater useCache cache' rest))"

text \<open>
  The cache as the loop leaves it after the given rows, and the turns that put a
  value for the key string \<open>s\<close> into the cache: the resolver was invoked for a
  present key with that string and returned a defined value.
\<close>

fun cache_after :: "string \<Rightarrow> (row \<Rightarrow> value) \<Rightarrow> bool \<Rightarrow> row \<Rightarrow> row list \<Rightarrow> row" where
  "cache_after columnName updater useCache cache [] = cache"
| "cache_after columnName updater useCache cache (currentRow # rest) =
     (let lv = js_get currentRow columnName
      in if cache_hit useCache cache lv then cache_after columnName updater useCache cache rest
         else cache_after columnName updater useCache
                (if useCache \<and> lv \<noteq> VUndefined \<and> lv \<noteq> VNull
                 then js_set cache (toString_value lv) (updater currentRow) else cache) rest)"

definition memo :: "string \<Rightarrow> turn \<Rightarrow> bool" where
  "memo s t = (invoked t \<and> present (lookupValue t) \<and> toString_value (lookupValue t) = s
               \<and> resolvedValue t \<noteq> VUndefined)"

text \<open>\<^verbatim>\<open>lookup\<close> starts every call with an empty cache.\<close>

definition lookup_turns :: "DataTable \<Rightarrow> string \<Rightarrow> (row \<Rightarrow> value) \<Rightarrow> bool \<Rightarrow> turn list" where
  "lookup_turns dt columnName updater useCache =
     lookup_loop columnName updater useCache [] (rows dt)"

definition lookup :: "DataTable \<Rightarrow> string \<Rightarrow> (row \<Rightarrow> value) \<Rightarrow> bool \<Rightarrow> DataTable" where
  "lookup dt columnName updater useCache =
     dt\<lparr>rows := map row_out (lookup_turns dt columnName updater useCache)\<rparr>"

definition removeColumn :: "DataTable \<Rightarrow> string \<Rightarrow> DataTable" where
  "removeColumn dt columnName = dt\<lparr>rows := map (\<lambda>r. js_delete r columnName) (rows dt)\<rparr>"

definition renameColumn :: "DataTable \<Rightarrow> string \<Rightarrow> string \<Rightarrow> DataTable" where
  "renameColumn dt columnName newName =
     dt\<lparr>rows := map (\<lambda>r. if js_get r columnName \<noteq> VUndefined
                           then js_delete (js_set r newName (js_get r columnName)) columnName
                           else r) (rows dt)\<rparr>"

section \<open>The markup format\<close>

text \<open>
  The writer and the parser of the markup are libraries; the model keeps the document
  they exchange as a tree of elements. An element that the writer produced has a text.
\<close>

datatype xml = Element (tag: string) (attrib: "(string \<times> string) list")
  (text_of: "string option") (children: "xml list")

definition serializeValue :: "value \<Rightarrow> string option" where
  "serializeValue v =
     (if v \<noteq> VNull \<and> v \<noteq> VUndefined then
        (case v of
           VDate None \<Rightarrow> Some ''null''
         | VDate (Some t) \<Rightarrow> Some (toISOString t)
         | _ \<Rightarrow> Some (toString_value v))
      else None)"

definition is_tagged :: "value \<Rightarrow> bool" where
  "is_tagged propValue =
     ((case propValue of VObj ps \<Rightarrow> True | VArr xs \<Rightarrow> True | _ \<Rightarrow> False)
      \<and> js_member propValue ''type'' \<noteq> VNull \<and> js_member propValue ''type'' \<noteq> VUndefined)"

definition serializeField :: "string \<times> value \<Rightarrow> xml list" where
  "serializeField p =
     (let propName = fst p; propValue = snd p
      in if propValue \<noteq> VNull \<and> propValue \<noteq> VUndefined then
           (let strValue = (if is_tagged propValue
                            then serializeValue (js_member propValue ''value'')
                            else serializeValue propValue)
            in case strValue of
                 None \<Rightarrow> []
               | Some t \<Rightarrow>
                   [Element propName
                      (if is_tagged propValue
                       then [(''type'', toString_value (js_member propValue ''type''))] else [])
                      (Some t) []])
         else [])"

definition serializeRow :: "row \<Rightarrow> xml" where
  "serializeRow rowItem = Element ''row'' [] None (concat (map serializeField rowItem))"

definition serializeXml :: "DataTable \<Rightarrow> xml" where
  "serializeXml data =
     Element ''DataTable''
       (if js_truthy (name data) then [(''name'', toString_value (name data))] else [])
       None (map serializeRow (rows data))"

definition parseField :: "row \<Rightarrow> xml \<Rightarrow> row" where
  "parseField rowItem rowFieldElement =
     (let parsedValue = parseXmlValue (text_of rowFieldElement)
      in js_set rowItem (tag rowFieldElement)
           (case map_of (attrib rowFieldElement) ''type'' of
              None \<Rightarrow> parsedValue
            | Some fieldType \<Rightarrow>
                if fieldType \<noteq> [] then VObj [(''type'', VStr fieldType), (''value'', parsedValue)]
                else parsedValue))"

definition parseRow :: "xml \<Rightarrow> row" where
  "parseRow rowElement = foldl parseField [] (children rowElement)"

definition parseXml :: "xml \<Rightarrow> DataTable" where
  "parseXml rootElement =
     \<lparr>name = (case map_of (attrib rootElement) ''name'' of
                None \<Rightarrow> VUndefined
              | Some attrName \<Rightarrow> if attrName \<noteq> [] then VStr attrName else VUndefined),
      rows = map parseRow (children rootElement)\<rparr>"

section \<open>The structured-text format\<close>

text \<open>
  The generic parser and printer are the runtime's; the model keeps the document as the
  tree they exchange. \<open>stringify\<close> is what \<^verbatim>\<open>JSON.stringify\<close> writes for a value (nothing
  for \<^verbatim>\<open>undefined\<close> and for functions); \<open>revive\<close> is what \<^verbatim>\<open>JSON.parse\<close> with
  \<^verbatim>\<open>JSONDataReviver\<close> returns for a document.
\<close>

datatype json = JNull | JBool bool | JNum rat | JStr string | JArr "json list"
  | JObj "(string \<times> json) list"

fun stringify :: "value \<Rightarrow> json option"
  and stringify_elems :: "value list \<Rightarrow> json list"
  and stringify_props :: "(string \<times> value) list \<Rightarrow> (string \<times> json) list" where
  "stringify VUndefined = None"
| "stringify VNull = Some JNull"
| "stringify (VBool b) = Some (JBool b)"
| "stringify (VNum x) = Some (case x of Fin q \<Rightarrow> JNum q | _ \<Rightarrow> JNull)"
| "stringify (VStr s) = Some (JStr s)"
| "stringify (VDate t) = Some (case t of None \<Rightarrow> JNull | Some tv \<Rightarrow> JStr (toISOString tv))"
| "stringify (VObj ps) = Some (JObj (stringify_props ps))"
| "stringify (VArr xs) = Some (JArr (stringify_elems xs))"
| "stringify (VBuiltin k) = (if k = ''__proto__'' then Some (JObj []) else None)"
| "stringify_elems [] = []"
| "stringify_elems (x # xs) =
     (case stringify x of None \<Rightarrow> JNull | Some j \<Rightarrow> j) # stringify_elems xs"
| "stringify_props [] = []"
| "stringify_props (p # ps) =
     (case stringify (snd p) of None \<Rightarrow> [] | Some j \<Rightarrow> [(fst p, j)]) @ stringify_props ps"

definition JSONDataReviver :: "value \<Rightarrow> value" where
  "JSONDataReviver str =
     (case str of
        VStr s \<Rightarrow> (let parsedValue = parseDates s in if parsedValue \<noteq> VNull then parsedValue else str)
      | _ \<Rightarrow> str)"

text \<open>
  The object that \<^verbatim>\<open>JSON.parse\<close> makes of the members of a document: every member
  becomes an own property, also one called \<^verbatim>\<open>__proto__\<close>, and of two members with one
  name the later gives the value.
\<close>

definition object_of :: "(string \<times> value) list \<Rightarrow> (string \<times> value) list" where
  "object_of ps = foldl (\<lambda>obj p. define_own obj (fst p) (snd p)) [] ps"

fun revive :: "json \<Rightarrow> value"
  and revive_elems :: "json list \<Rightarrow> value list"
  and revive_props :: "(string \<times> json) list \<Rightarrow> (string \<times> value) list" where
  "revive JNull = JSONDataReviver VNull"
| "revive (JBool b) = JSONDataReviver (VBool b)"
| "revive (JNum q) = JSONDataReviver (VNum (rnd q))"
| "revive (JStr s) = JSONDataReviver (VStr s)"
| "revive (JArr xs) = JSONDataReviver (VArr (revive_elems xs))"
| "revive (JObj ps) = JSONDataReviver (VObj (object_of (revive_props ps)))"
| "revive_elems [] = []"
| "revive_elems (x # xs) = revive x # revive_elems xs"
| "revive_props [] = []"
| "revive_props (p # ps) = (fst p, revive (snd p)) # revive_props ps"

text \<open>Whether a document is an object with a member \<^verbatim>\<open>rows\<close>.\<close>

definition has_rows :: "json \<Rightarrow> bool" where
  "has_rows j = (case j of JObj ps \<Rightarrow> ''rows'' \<in> set (map fst ps) | _ \<Rightarrow> False)"

definition table_value :: "DataTable \<Rightarrow> value" where
  "table_value dt = VObj [(''name'', name dt), (''rows'', VArr (map VObj (rows dt)))]"

section \<open>The spreadsheet format\<close>

text \<open>
  A workbook as the spreadsheet library hands it over: the names of the sheets, and for
  each sheet its used range and its cells by row and column. A cell is absent or has a
  value \<^verbatim>\<open>v\<close>.
\<close>

record worksheet =
  ref :: "((int \<times> int) \<times> (int \<times> int)) option"
  cell :: "int \<times> int \<Rightarrow> value option"

record workbook =
  SheetNames :: "string list"
  Sheets :: "string \<Rightarrow> worksheet option"

datatype error = Error string | Thrown string | TypeError | ParserError | NoSuchFile

definition excelCell :: "worksheet \<Rightarrow> int \<Rightarrow> int \<Rightarrow> int \<Rightarrow> row \<Rightarrow> row" where
  "excelCell workSheet headerRow rowIndex colIndex row =
     (case (cell workSheet (headerRow, colIndex), cell workSheet (rowIndex, colIndex)) of
        (Some colName, Some colValue) \<Rightarrow>
          if colName \<noteq> VNull \<and> colValue \<noteq> VUndefined \<and> colValue \<noteq> VNull
          then js_set row (toString_value colName) colValue else row
      | _ \<Rightarrow> row)"

definition parseExcel :: "workbook \<Rightarrow> error + DataTable" where
  "parseExcel workBook =
     (case SheetNames workBook of
        [] \<Rightarrow> Inl TypeError
      | sheetName # others \<Rightarrow>
          (case Sheets workBook sheetName of
             None \<Rightarrow> Inl TypeError
           | Some workSheet \<Rightarrow>
               (case ref workSheet of
                  None \<Rightarrow> Inl TypeError
                | Some (from, to) \<Rightarrow>
                    Inr \<lparr>name = VStr sheetName,
                         rows = map (\<lambda>rowIndex.
                                  foldl (\<lambda>row colIndex.
                                           excelCell workSheet (fst from) rowIndex colIndex row)
                                    [] [snd from .. snd to])
                                [fst from + 1 .. fst to]\<rparr>)))"

section \<open>Saving and loading by file extension\<close>

text \<open>
  \<^verbatim>\<open>path.extname\<close> for POSIX paths: the part of the last path segment from its last
  dot on, empty when there is no dot, when the dot is the first character of the
  segment, or when the segment is \<^verbatim>\<open>..\<close>.
\<close>

definition last_segment :: "string \<Rightarrow> string" where
  "last_segment p =
     rev (takeWhile (\<lambda>c. c \<noteq> CHR ''/'') (dropWhile (\<lambda>c. c = CHR ''/'') (rev p)))"

definition extname :: "string \<Rightarrow> string" where
  "extname p =
     (let b = last_segment p;
          e = rev (takeWhile (\<lambda>c. c \<noteq> CHR ''.'') (rev b))
      in if CHR ''.'' \<notin> set b \<or> length b = length e + 1 \<or> b = ''..'' then []
         else CHR ''.'' # e)"

text \<open>
  A file holds a document of one of the formats, or something else. Reading a file with
  the parser of another format fails in the parser.
\<close>

datatype content = JsonText json | XmlText xml | XlsxFile workbook | OtherText string

type_synonym files = "string \<Rightarrow> content option"

text \<open>What \<^verbatim>\<open>load\<close> returns: a table, or for \<^verbatim>\<open>.json\<close> whatever the document held.\<close>

datatype loaded = Table DataTable | Parsed "value"

definition unsupported :: "string \<Rightarrow> error" where
  "unsupported ext = Error (''Format \"'' @ ext @ ''\" not supported'')"

definition save :: "DataTable \<Rightarrow> string \<Rightarrow> files \<Rightarrow> error + files" where
  "save dt fileName fs =
     (let ext = toLowerCase (extname fileName)
      in if ext = ''.json'' then
           (case stringify (table_value dt) of
              Some strValue \<Rightarrow> Inr (fs(fileName \<mapsto> JsonText strValue))
            | None \<Rightarrow> Inr fs)
         else if ext = ''.xml'' then Inr (fs(fileName \<mapsto> XmlText (serializeXml dt)))
         else Inl (unsupported ext))"

definition load :: "files \<Rightarrow> string \<Rightarrow> error + loaded" where
  "load fs fileName =
     (let ext = toLowerCase (extname fileName)
      in if ext = ''.json'' then
           (case fs fileName of
              None \<Rightarrow> Inl NoSuchFile
            | Some (JsonText strContent) \<Rightarrow>
                (let dt = revive strContent
                 in if js_truthy dt \<and> js_member dt ''rows'' = VUndefined
                    then Inl (Thrown ''The parsed file doesn't look like a DataTable'')
                    else Inr (Parsed dt))
            | Some other \<Rightarrow> Inl ParserError)
         else if ext = ''.xml'' then
           (case fs fileName of
              None \<Rightarrow> Inl NoSuchFile
            | Some (XmlText strContent) \<Rightarrow> Inr (Table (parseXml strContent))
            | Some other \<Rightarrow> Inl ParserError)
         else if ext = ''.xlsx'' then
           (case fs fileName of
              None \<Rightarrow> Inl NoSuchFile
            | Some (XlsxFile workBook) \<Rightarrow> map_sum id Table (parseExcel workBook)
            | Some other \<Rightarrow> Inl ParserError)
         else Inl (unsupported ext))"

section \<open>Rounding and the scanning of numeric literals\<close>

lemma ipow_pos: "0 < b \<Longrightarrow> 0 < ipow b e"
proof (induction b e rule: ipow.induct)
  case (1 b e)
  show ?case
    using 1 by (subst ipow.simps) (auto simp: Let_def)
qed

lemma pow2_pos: "0 < pow2 e"
  using ipow_pos [of 2 e] ipow_pos [of 2 "- e"] by (simp add: pow2_def)

lemma round_half_even_nonneg: "0 \<le> q \<Longrightarrow> 0 \<le> round_half_even q"
  by (auto simp: round_half_even_def Let_def)

lemma rnd_pos_nonneg: "0 \<le> q \<Longrightarrow> nonneg (rnd_pos q)"
  using pow2_pos round_half_even_nonneg
  by (auto simp: rnd_pos_def nonneg_def Let_def less_imp_le)

lemma rnd_nonneg: "0 \<le> q \<Longrightarrow> nonneg (rnd q)"
  using rnd_pos_nonneg [of q] by (auto simp: rnd_def nonneg_def)

lemma rnd_pos_not_NaN: "rnd_pos q \<noteq> NaN \<and> rnd_pos q \<noteq> NInf"
  by (simp add: rnd_pos_def Let_def)

lemma rnd_not_NaN: "rnd q \<noteq> NaN"
  using rnd_pos_not_NaN [of q] rnd_pos_not_NaN [of "- q"]
  by (cases "rnd_pos (- q)") (auto simp: rnd_def)

lemma rnd_one: "rnd 1 = Fin 1"
  by code_simp

lemma nonneg_ge: "nonneg x \<Longrightarrow> js_ge (js_add x (Fin 1)) (Fin 0)"
proof (cases x)
  case (Fin r)
  assume "nonneg x"
  with Fin have "0 \<le> r + 1" by (simp add: nonneg_def)
  then have "nonneg (rnd (r + 1))" by (rule rnd_nonneg)
  with Fin show ?thesis by (cases "rnd (r + 1)") (auto simp: nonneg_def)
qed (auto simp: nonneg_def)

lemma rnd_zero: "rnd 0 = Fin 0"
  by (simp add: rnd_def)

lemma sub_self: "js_ge (js_add (js_sub x x) (Fin 1)) (Fin 0) = is_finite x"
  by (cases x) (simp_all add: js_sub_def is_finite_def rnd_zero rnd_one)

lemma sub_zero: "nonneg x \<Longrightarrow> nonneg (js_sub x (Fin 0))"
  using rnd_nonneg by (cases x) (auto simp: js_sub_def nonneg_def)

lemma ws_facts: "is_ws c \<Longrightarrow> \<not> is_digit c \<and> c \<noteq> CHR ''.'' \<and> c \<noteq> CHR ''e'' \<and> c \<noteq> CHR ''E''
   \<and> c \<noteq> CHR ''+'' \<and> c \<noteq> CHR ''-'' \<and> c \<notin> set ''Infinity''"
  by (auto simp: is_ws_def is_digit_def)

lemma tw_stop: "stop w \<Longrightarrow> takeWhile is_digit (u @ w) = takeWhile is_digit u"
proof (cases w)
  case (Cons a l)
  assume "stop w"
  with Cons have "\<not> is_digit a" using ws_facts by (simp add: stop_def)
  with Cons show ?thesis by (induction u) auto
qed simp

lemma dw_stop: "stop w \<Longrightarrow> dropWhile is_digit (u @ w) = dropWhile is_digit u @ w"
proof (cases w)
  case (Cons a l)
  assume "stop w"
  with Cons have "\<not> is_digit a" using ws_facts by (simp add: stop_def)
  with Cons show ?thesis by (induction u) auto
qed simp

lemma sign_of_stop: "stop w \<Longrightarrow> sign_of (u @ w) = (fst (sign_of u), snd (sign_of u) @ w)"
proof (cases u)
  case Nil
  assume "stop w"
  with Nil show ?thesis using ws_facts by (cases w) (auto simp: sign_of_def stop_def)
qed (simp add: sign_of_def)

lemma frac_of_stop: "stop w \<Longrightarrow> frac_of (u @ w) = (fst (frac_of u), snd (frac_of u) @ w)"
proof (cases u)
  case Nil
  assume "stop w"
  with Nil show ?thesis using ws_facts by (cases w) (auto simp: frac_of_def stop_def)
next
  case (Cons c r)
  assume "stop w"
  with Cons show ?thesis by (simp add: frac_of_def tw_stop dw_stop)
qed

lemma scan_exponent_stop:
  assumes "stop w"
  shows "scan_exponent (u @ w) = map_option (\<lambda>(e, r). (e, r @ w)) (scan_exponent u)"
proof (cases u)
  case Nil
  with assms ws_facts show ?thesis
    by (cases w) (auto simp: scan_exponent_def stop_def)
next
  case (Cons c r)
  then show ?thesis
    by (simp add: scan_exponent_def Let_def sign_of_stop [OF assms] tw_stop [OF assms] dw_stop [OF assms])
qed

lemma infinity_stop:
  assumes "stop w"
  shows "(take 8 (u @ w) = ''Infinity'') = (take 8 u = ''Infinity'')"
proof (cases "8 \<le> length u")
  case True
  then show ?thesis by simp
next
  case False
  then have l: "length u < 8" by simp
  have "take 8 u \<noteq> ''Infinity''"
  proof
    assume "take 8 u = ''Infinity''"
    then have "length (take 8 u) = 8" by simp
    with l show False by simp
  qed
  moreover have "take 8 (u @ w) \<noteq> ''Infinity''"
  proof
    assume e: "take 8 (u @ w) = ''Infinity''"
    then have "length (take 8 (u @ w)) = 8" by simp
    with l have wne: "w \<noteq> []" by (cases w) auto
    from e have "take 8 (u @ w) ! length u \<in> set ''Infinity''"
      using l by (metis e length_take nth_mem \<open>length (take 8 (u @ w)) = 8\<close>)
    moreover have "take 8 (u @ w) ! length u = hd w"
      using l wne by (simp add: nth_append hd_conv_nth)
    ultimately have "hd w \<in> set ''Infinity''" by simp
    with assms wne ws_facts show False by (auto simp: stop_def)
  qed
  ultimately show ?thesis by simp
qed

lemma scan_unsigned_stop:
  assumes "stop w"
  shows "scan_unsigned (u @ w) = map_option (\<lambda>(v, r). (v, r @ w)) (scan_unsigned u)"
proof (cases "take 8 u = ''Infinity''")
  case True
  then have "length (take 8 u) = 8" by simp
  then have "8 \<le> length u" by simp
  with True infinity_stop [OF assms, of u] show ?thesis
    by (simp add: scan_unsigned_def)
next
  case False
  with infinity_stop [OF assms, of u] show ?thesis
    by (auto simp: scan_unsigned_def Let_def frac_of_stop [OF assms] tw_stop [OF assms]
        dw_stop [OF assms] scan_exponent_stop [OF assms] split: option.splits)
qed

lemma scan_decimal_stop:
  assumes "stop w"
  shows "scan_decimal (u @ w) = map_option (\<lambda>(v, r). (v, r @ w)) (scan_decimal u)"
  by (auto simp: scan_decimal_def sign_of_stop [OF assms] scan_unsigned_stop [OF assms]
      split: option.splits)


lemma dropWhile_trim: "\<exists>w. dropWhile is_ws s = trim s @ w \<and> stop w"
proof -
  let ?u = "dropWhile is_ws s"
  let ?w = "rev (takeWhile is_ws (rev ?u))"
  have "rev (rev ?u) = rev (takeWhile is_ws (rev ?u) @ dropWhile is_ws (rev ?u))"
    by (simp only: takeWhile_dropWhile_id)
  then have e: "?u = trim s @ ?w" by (simp only: rev_rev_ident rev_append trim_def)
  have "\<forall>c\<in>set ?w. is_ws c" by (auto dest: set_takeWhileD)
  then have "stop ?w" by (cases ?w) (auto simp: stop_def)
  with e show ?thesis by blast
qed

lemma trim_empty: "trim s = [] \<Longrightarrow> dropWhile is_ws s = []"
proof (rule ccontr)
  assume t: "trim s = []" and n: "dropWhile is_ws s \<noteq> []"
  from t have "\<forall>c\<in>set (dropWhile is_ws s). is_ws c"
    by (simp add: trim_def dropWhile_eq_Nil_conv)
  with n have "is_ws (hd (dropWhile is_ws s))" by simp
  with n show False using hd_dropWhile [of is_ws s] by simp
qed

lemma parseFloat_trim:
  "scan_decimal (trim s) = Some (v, r) \<Longrightarrow> parseFloat s = v"
proof -
  assume a: "scan_decimal (trim s) = Some (v, r)"
  obtain w where w: "dropWhile is_ws s = trim s @ w" "stop w" using dropWhile_trim by blast
  from a w scan_decimal_stop [OF w(2), of "trim s"] show ?thesis
    by (simp add: parseFloat_def)
qed

lemma radix_val_nonneg_aux:
  "0 \<le> b \<Longrightarrow> 0 \<le> a \<Longrightarrow> list_all (\<lambda>c. radix_digit b c \<noteq> None) ds \<Longrightarrow>
   0 \<le> foldl (\<lambda>a c. b * a + the (radix_digit b c)) a ds"
proof (induction ds arbitrary: a)
  case (Cons c ds)
  from Cons.prems obtain d where d: "radix_digit b c = Some d" by auto
  then have "0 \<le> d"
    by (auto simp: radix_digit_def split: option.splits if_splits dest!: map_of_SomeD)
  with Cons.prems d have "0 \<le> b * a + the (radix_digit b c)" by simp
  with Cons show ?case by simp
qed simp

lemma nondecimal_nonneg: "nondecimal t = Some n \<Longrightarrow> 0 \<le> n"
  using radix_val_nonneg_aux [of _ 0]
  by (auto simp: nondecimal_def radix_val_def Let_def split: list.splits if_splits)

lemma nondecimal_scan: "nondecimal t = Some n \<Longrightarrow> \<exists>r. scan_decimal t = Some (Fin 0, r)"
proof -
  assume a: "nondecimal t = Some n"
  then obtain p ds where t: "t = CHR ''0'' # p # ds" and p: "to_lower p \<in> {CHR ''x'', CHR ''o'', CHR ''b''}"
    by (auto simp: nondecimal_def Let_def split: list.splits if_splits)
  from p have pd: "\<not> is_digit p" "p \<noteq> CHR ''.''" "p \<noteq> CHR ''e''" "p \<noteq> CHR ''E''"
    by (auto simp: is_digit_def to_lower_def)
  with t show ?thesis
    by (simp add: scan_decimal_def sign_of_def scan_unsigned_def is_digit_def frac_of_def
        scan_exponent_def dec_val_def digit_val_def pow10_def ipow.simps rnd_zero Let_def)
qed


lemma isNumber_NaN: "\<not> js_ge (js_add (js_sub NaN b) (Fin 1)) (Fin 0)"
  by (simp add: js_sub_def)

lemma parseFloat_blank: "trim s = [] \<Longrightarrow> parseFloat s = NaN"
  by (simp add: trim_empty parseFloat_def scan_decimal_def sign_of_def scan_unsigned_def frac_of_def)

lemma isNumber_blank: "trim s = [] \<Longrightarrow> parseNumbers s = VNull"
  by (simp add: parseNumbers_def parseFloat_blank js_sub_def to_number_def)

lemma isNumber_radix:
  assumes "trim s \<noteq> []" "nondecimal (trim s) = Some n"
  shows "parseNumbers s = VNum (to_number s)"
proof -
  from assms have a: "to_number s = rnd (rat_of_int n)" by (simp add: to_number_def)
  from nondecimal_nonneg [OF assms(2)] have "nonneg (to_number s)"
    unfolding a by (intro rnd_nonneg) simp
  moreover from nondecimal_scan [OF assms(2)] parseFloat_trim have "parseFloat s = Fin 0" by blast
  ultimately have "js_ge (js_add (js_sub (to_number s) (parseFloat s)) (Fin 1)) (Fin 0)"
    using sub_zero nonneg_ge by simp
  then show ?thesis by (simp add: parseNumbers_def)
qed

lemma isNumber_decimal:
  assumes "trim s \<noteq> []" "nondecimal (trim s) = None"
  shows "parseNumbers s = (if is_finite (to_number s) then VNum (to_number s) else VNull)
     \<and> (is_finite (to_number s) \<longrightarrow> to_number s = parseFloat s)"
proof (cases "scan_decimal (trim s)")
  case None
  with assms have "to_number s = NaN" by (simp add: to_number_def)
  then show ?thesis by (simp add: parseNumbers_def isNumber_NaN is_finite_def)
next
  case (Some p)
  obtain v r where p: "p = (v, r)" by (cases p)
  show ?thesis
  proof (cases "r = []")
    case True
    with Some p assms have a: "to_number s = v" by (simp add: to_number_def)
    from Some p parseFloat_trim have b: "parseFloat s = v" by blast
    show ?thesis by (simp add: parseNumbers_def a b sub_self)
  next
    case False
    with Some p assms have "to_number s = NaN" by (simp add: to_number_def)
    then show ?thesis by (simp add: parseNumbers_def isNumber_NaN is_finite_def)
  qed
qed


section \<open>Properties of type inference\<close>

lemma parseDates_match: "re_date s \<noteq> None \<Longrightarrow> parseDates s \<noteq> VNull"
  by (auto simp: parseDates_def split: option.splits)

lemma parseDates_nomatch: "re_date s = None \<Longrightarrow> parseDates s = VNull"
  by (simp add: parseDates_def)

text \<open>
  Claim C1. On a string, inference is a function of the string alone that tries the
  boolean check, then the numeric check, then the timestamp check; the first check that
  matches gives the result and a string that matches none is returned unchanged. The
  loader of the markup format infers in the same order. The string \<^verbatim>\<open>true\<close> becomes
  the boolean, not a number.
\<close>

theorem C1_inference_priority:
  "parseValue (VStr s) =
     (if re_bool s then VBool (toLowerCase s = ''true'')
      else if parseNumbers s \<noteq> VNull then parseNumbers s
      else if re_date s \<noteq> None then parseDates s
      else VStr s)
   \<and> parseXmlValue (Some s) = parseValue (VStr s)
   \<and> parseValue (VStr ''true'') = VBool True"
proof -
  have a: "parseValue (VStr s) =
     (if re_bool s then VBool (toLowerCase s = ''true'')
      else if parseNumbers s \<noteq> VNull then parseNumbers s
      else if re_date s \<noteq> None then parseDates s
      else VStr s)"
    using parseDates_match [of s] parseDates_nomatch [of s]
    by (simp add: parseValue_def parseBooleans_def Let_def)
  have b: "parseXmlValue (Some s) = parseValue (VStr s)"
    by (simp add: parseXmlValue_def parseValue_def)
  have c: "parseValue (VStr ''true'') = VBool True"
    by code_simp
  from a b c show ?thesis by blast
qed

text \<open>
  Claim C2, amended. The numeric check accepts a string exactly when it is not blank and
  either its value under the unary plus is finite or it is a binary, octal or hexadecimal
  integer literal. So the empty string and strings with a residual suffix such as
  \<^verbatim>\<open>12abc\<close> and \<^verbatim>\<open>42kg\<close> are rejected, and white space around a literal is accepted.
  The value inferred is that of the unary plus; it equals \<^verbatim>\<open>parseFloat\<close> of the string
  for every accepted string that is not an integer literal with a radix prefix.
\<close>

theorem C2_numeric_check:
  "parseNumbers s =
     (if \<not> is_blank s \<and> (is_radix_literal s \<or> is_finite (to_number s))
      then VNum (to_number s) else VNull)
   \<and> (parseNumbers s \<noteq> VNull \<and> \<not> is_radix_literal s \<longrightarrow> to_number s = parseFloat s)
   \<and> parseNumbers [] = VNull
   \<and> parseNumbers ''12abc'' = VNull
   \<and> parseNumbers ''42kg'' = VNull
   \<and> parseNumbers '' 42 '' = VNum (Fin 42)"
proof -
  have a: "parseNumbers s =
     (if \<not> is_blank s \<and> (is_radix_literal s \<or> is_finite (to_number s))
      then VNum (to_number s) else VNull)"
  proof (cases "trim s = []")
    case True
    then show ?thesis by (simp add: isNumber_blank is_blank_def)
  next
    case False
    show ?thesis
    proof (cases "nondecimal (trim s)")
      case None
      with False isNumber_decimal [of s] show ?thesis
        by (simp add: is_blank_def is_radix_literal_def)
    next
      case (Some n)
      with False isNumber_radix [of s n] show ?thesis
        by (simp add: is_blank_def is_radix_literal_def)
    qed
  qed
  have b: "parseNumbers s \<noteq> VNull \<and> \<not> is_radix_literal s \<longrightarrow> to_number s = parseFloat s"
  proof (cases "trim s = []")
    case True
    then show ?thesis by (simp add: isNumber_blank)
  next
    case False
    show ?thesis
    proof (cases "nondecimal (trim s)")
      case None
      with False isNumber_decimal [of s] show ?thesis
        by (cases "is_finite (to_number s)") simp_all
    next
      case (Some n)
      then show ?thesis by (simp add: is_radix_literal_def)
    qed
  qed
  have c: "parseNumbers [] = VNull" by (simp add: isNumber_blank trim_def)
  have d: "parseNumbers ''12abc'' = VNull" by code_simp
  have e: "parseNumbers ''42kg'' = VNull" by code_simp
  have f: "parseNumbers '' 42 '' = VNum (Fin 42)" by code_simp
  from a b c d e f show ?thesis by blast
qed

theorem C2_numeric_check_witness:
  "parseNumbers ''-3.5'' \<noteq> VNull \<and> \<not> is_radix_literal ''-3.5''
   \<and> to_number ''-3.5'' = parseFloat ''-3.5'' \<and> parseNumbers ''-3.5'' = VNum (Fin (- 7 / 2))"
proof -
  have h: "parseNumbers ''-3.5'' = VNum (Fin (- 7 / 2))" by code_simp
  have r: "\<not> is_radix_literal ''-3.5''" by code_simp
  have n: "parseNumbers ''-3.5'' \<noteq> VNull" unfolding h by simp
  from C2_numeric_check [of "''-3.5''"]
  have "parseNumbers ''-3.5'' \<noteq> VNull \<and> \<not> is_radix_literal ''-3.5''
          \<longrightarrow> to_number ''-3.5'' = parseFloat ''-3.5''"
    by (rule conjunct1 [OF conjunct2])
  with n r have "to_number ''-3.5'' = parseFloat ''-3.5''" by blast
  with n r h show ?thesis by blast
qed

text \<open>
  Claim C2 as stated fails on a hexadecimal literal: \<^verbatim>\<open>parseFloat\<close> stops after the
  leading zero and leaves \<^verbatim>\<open>x10\<close>, yet the string is accepted, with the value 16.
\<close>

theorem C2_hex_literal_accepted:
  "parseNumbers ''0x10'' = VNum (Fin 16) \<and> parseFloat ''0x10'' = Fin 0"
  by code_simp


text \<open>
  Claim C3 says that no string outside the pattern with at most one dot before the
  fraction becomes a timestamp. The pattern of the source repeats the dot any number of
  times: a string with two dots is outside the pattern of the claim and is inferred as
  a timestamp.
\<close>

theorem C3_two_dots_become_timestamp:
  "spec_re_date ''2020-01-02T03:04:05..5Z'' = None
   \<and> parseValue (VStr ''2020-01-02T03:04:05..5Z'') = VDate (Some 1577934245005)"
  by code_simp

section \<open>Properties of \<^verbatim>\<open>lookup\<close>\<close>

text \<open>
  The resolver of \<^verbatim>\<open>lookup\<close> is taken as a function of the row: it returns a value
  and leaves the row and the table as they are. A call is described by its turns, one
  for each row in the order of the rows; \<open>cache_after\<close> is the cache that the loop
  holds after a prefix of the rows, and \<open>memo s t\<close> says that turn \<open>t\<close> invoked the
  resolver for a present key with the string \<open>s\<close> and got a defined value.
\<close>

lemma lookup_loop_length: "length (lookup_loop c u uc cache rs) = length rs"
  by (induction rs arbitrary: cache) (auto simp: Let_def)

lemma insert_index_conv:
  "map_of obj k = None \<Longrightarrow>
     map_of (insert_index k v obj) k' = (if k' = k then Some v else map_of obj k')"
  by (induction obj) (auto split: if_splits)

lemma define_own_conv:
  "map_of (define_own obj k v) k' = (if k' = k then Some v else map_of obj k')"
  by (simp add: define_own_def insert_index_conv update_conv')

lemma write_back_defined:
  "v \<noteq> VUndefined \<Longrightarrow> c \<noteq> ''__proto__'' \<Longrightarrow> map_of (write_back r c v) c = Some v"
  by (simp add: write_back_def js_set_def define_own_conv)

lemma write_back_other:
  "k \<noteq> c \<Longrightarrow> map_of (write_back r c v) k = map_of r k"
  by (auto simp: write_back_def js_set_def js_delete_def define_own_conv delete_conv')

lemma write_back_delete:
  "js_get r c \<noteq> VUndefined \<Longrightarrow>
     write_back r c VUndefined = js_delete r c \<and> map_of (write_back r c VUndefined) c = None"
  by (simp add: write_back_def js_delete_def delete_conv')

lemma write_back_untouched: "js_get r c = VUndefined \<Longrightarrow> write_back r c VUndefined = r"
  by (simp add: write_back_def)

lemma write_back_set: "v \<noteq> VUndefined \<Longrightarrow> write_back r c v = js_set r c v"
  by (simp add: write_back_def)

lemma cache_first:
  assumes "lv \<noteq> VUndefined" "lv \<noteq> VNull" "toString_value lv \<notin> set Object_prototype_keys"
  shows "\<not> cache_hit True [] lv"
  using assms by (simp add: cache_hit_def js_get_def)

lemma proto_in_keys: "''__proto__'' \<in> set Object_prototype_keys"
  by (simp add: Object_prototype_keys_def)

lemma cache_second:
  assumes "v \<noteq> VUndefined" "s \<notin> set Object_prototype_keys" "lv \<noteq> VUndefined" "lv \<noteq> VNull"
    "toString_value lv = s"
  shows "cache_hit True (js_set [] s v) lv \<and> js_get (js_set [] s v) s = v"
proof -
  from assms(2) proto_in_keys have "s \<noteq> ''__proto__''" by auto
  with assms show ?thesis by (simp add: cache_hit_def js_get_def js_set_def define_own_conv)
qed

lemma get_set_same: "s \<notin> set Object_prototype_keys \<Longrightarrow> js_get (js_set cache s v) s = v"
  using proto_in_keys by (auto simp: js_get_def js_set_def define_own_conv)

lemma get_set_other: "s' \<noteq> s \<Longrightarrow> js_get (js_set cache s v) s' = js_get cache s'"
  by (simp add: js_get_def js_set_def define_own_conv)

lemma loop_append:
  "lookup_loop c u uc cache (xs @ ys)
     = lookup_loop c u uc cache xs @ lookup_loop c u uc (cache_after c u uc cache xs) ys"
  by (induction xs arbitrary: cache) (auto simp: Let_def)

lemma cache_after_append:
  "cache_after c u uc cache (xs @ ys) = cache_after c u uc (cache_after c u uc cache xs) ys"
  by (induction xs arbitrary: cache) (auto simp: Let_def)

lemma set_other_key: "s \<noteq> s' \<Longrightarrow> map_of (js_set cache s' v) s = map_of cache s"
  by (simp add: js_set_def define_own_conv)

lemma inherited_get: "s \<in> set Object_prototype_keys \<Longrightarrow> map_of cache s = None \<Longrightarrow> js_get cache s = VBuiltin s"
  by (simp add: js_get_def)

lemma cache_invariant:
  "(\<forall>s\<in>set Object_prototype_keys. map_of (cache_after c u True [] pre) s = None)
   \<and> (\<forall>s. s \<notin> set Object_prototype_keys \<longrightarrow> js_get (cache_after c u True [] pre) s \<noteq> VUndefined \<longrightarrow>
         (\<exists>t\<in>set (lookup_loop c u True [] pre). memo s t
             \<and> resolvedValue t = js_get (cache_after c u True [] pre) s))
   \<and> (\<forall>s. \<forall>t\<in>set (lookup_loop c u True [] pre). memo s t \<longrightarrow>
         js_get (cache_after c u True [] pre) s = resolvedValue t)"
proof (induction pre rule: rev_induct)
  case Nil
  then show ?case by (simp add: js_get_def)
next
  case (snoc r pre)
  define C where "C = cache_after c u True [] pre"
  define T where "T = lookup_loop c u True [] pre"
  define lv where "lv = js_get r c"
  define s' where "s' = toString_value lv"
  from snoc have I1: "\<And>s. s \<in> set Object_prototype_keys \<Longrightarrow> map_of C s = None"
    and I2: "\<And>s. s \<notin> set Object_prototype_keys \<Longrightarrow> js_get C s \<noteq> VUndefined \<Longrightarrow>
         \<exists>t\<in>set T. memo s t \<and> resolvedValue t = js_get C s"
    and I3: "\<And>s t. t \<in> set T \<Longrightarrow> memo s t \<Longrightarrow> js_get C s = resolvedValue t"
    unfolding C_def T_def by blast+
  show ?case
  proof (cases "cache_hit True C lv")
    case True
    have C': "cache_after c u True [] (pre @ [r]) = C"
      using True by (simp add: cache_after_append C_def [symmetric] lv_def [symmetric] Let_def)
    have T': "lookup_loop c u True [] (pre @ [r])
        = T @ [\<lparr>lookupValue = lv, resolvedValue = js_get C s', invoked = False,
                 row_out = write_back r c (js_get C s')\<rparr>]"
      using True by (simp add: loop_append C_def [symmetric] T_def [symmetric] lv_def [symmetric]
          s'_def [symmetric] Let_def)
    show ?thesis unfolding C' T' using I1 I2 I3 by (auto simp: memo_def)
  next
    case False
    define C2 where "C2 = (if lv \<noteq> VUndefined \<and> lv \<noteq> VNull then js_set C s' (u r) else C)"
    define tn where "tn = \<lparr>lookupValue = lv, resolvedValue = u r, invoked = True,
                 row_out = write_back r c (u r)\<rparr>"
    have C': "cache_after c u True [] (pre @ [r]) = C2"
      using False by (simp add: cache_after_append C_def [symmetric] lv_def [symmetric]
          s'_def [symmetric] C2_def Let_def)
    have T': "lookup_loop c u True [] (pre @ [r]) = T @ [tn]"
      using False by (simp add: loop_append C_def [symmetric] T_def [symmetric] lv_def [symmetric]
          s'_def [symmetric] tn_def Let_def)
    have miss: "present lv \<Longrightarrow> js_get C s' = VUndefined"
      using False by (simp add: cache_hit_def present_def s'_def)
    have notproto: "present lv \<Longrightarrow> s' \<notin> set Object_prototype_keys"
    proof
      assume p: "present lv" and "s' \<in> set Object_prototype_keys"
      with I1 have "js_get C s' = VBuiltin s'" by (simp add: inherited_get)
      with miss [OF p] show False by simp
    qed
    have other: "\<And>s. s \<noteq> s' \<Longrightarrow> js_get C2 s = js_get C s \<and> map_of C2 s = map_of C s"
      by (simp add: C2_def get_set_other set_other_key)
    have same: "present lv \<Longrightarrow> js_get C2 s' = u r"
      using notproto by (simp add: C2_def present_def get_set_same)
    have absent: "\<not> present lv \<Longrightarrow> C2 = C"
      by (auto simp: C2_def present_def)
    have J1: "\<forall>s\<in>set Object_prototype_keys. map_of C2 s = None"
    proof
      fix s assume s: "s \<in> set Object_prototype_keys"
      show "map_of C2 s = None"
      proof (cases "present lv")
        case True
        with notproto s have "s \<noteq> s'" by auto
        with other I1 [OF s] show ?thesis by simp
      next
        case False
        with absent I1 [OF s] show ?thesis by simp
      qed
    qed
    have J2: "\<forall>s. s \<notin> set Object_prototype_keys \<longrightarrow> js_get C2 s \<noteq> VUndefined \<longrightarrow>
         (\<exists>t\<in>set (T @ [tn]). memo s t \<and> resolvedValue t = js_get C2 s)"
    proof (intro allI impI)
      fix s assume s: "s \<notin> set Object_prototype_keys" and d: "js_get C2 s \<noteq> VUndefined"
      show "\<exists>t\<in>set (T @ [tn]). memo s t \<and> resolvedValue t = js_get C2 s"
      proof (cases "present lv \<and> s = s'")
        case True
        with same d have "memo s tn \<and> resolvedValue tn = js_get C2 s"
          by (simp add: memo_def tn_def s'_def)
        then show ?thesis by auto
      next
        case False
        then have "js_get C2 s = js_get C s" using other absent by (cases "present lv") auto
        with I2 [OF s] d show ?thesis by auto
      qed
    qed
    have J3: "\<forall>s. \<forall>t\<in>set (T @ [tn]). memo s t \<longrightarrow> js_get C2 s = resolvedValue t"
    proof (intro allI ballI impI)
      fix s t assume t: "t \<in> set (T @ [tn])" and m: "memo s t"
      from t consider (old) "t \<in> set T" | (new) "t = tn" by auto
      then show "js_get C2 s = resolvedValue t"
      proof cases
        case old
        from I3 [OF old m] have g: "js_get C s = resolvedValue t" .
        with m have "js_get C s \<noteq> VUndefined" by (simp add: memo_def)
        with miss have "\<not> (present lv \<and> s = s')" by auto
        then have "js_get C2 s = js_get C s" using other absent by (cases "present lv") auto
        with g show ?thesis by simp
      next
        case new
        with m have "present lv" "s = s'" by (simp_all add: memo_def tn_def s'_def)
        with same new show ?thesis by (simp add: tn_def)
      qed
    qed
    show ?thesis unfolding C' T' using J1 J2 J3 by blast
  qed
qed


lemma turn_at:
  assumes "rs = pre @ r # post"
  shows "take (length pre) (lookup_loop c u uc cache rs) = lookup_loop c u uc cache pre
    \<and> lookup_loop c u uc cache rs ! length pre
        = hd (lookup_loop c u uc (cache_after c u uc cache pre) [r])"
  unfolding assms loop_append [of c u uc cache pre "r # post"]
  by (simp add: lookup_loop_length nth_append Let_def)

lemma turn_characterised:
  fixes c :: string and u :: "row \<Rightarrow> value" and pre post :: "row list" and r :: row
  assumes "rs = pre @ r # post"
  defines "t \<equiv> lookup_loop c u True [] rs ! length pre"
    and "P \<equiv> lookup_loop c u True [] pre"
    and "s \<equiv> key_string r c"
  shows "lookupValue t = js_get r c"
    and "invoked t \<longleftrightarrow> \<not> (present (js_get r c)
            \<and> (s \<in> set Object_prototype_keys \<or> (\<exists>t'\<in>set P. memo s t')))"
    and "invoked t \<longrightarrow> resolvedValue t = u r"
    and "\<not> invoked t \<longrightarrow> resolvedValue t \<noteq> VUndefined
            \<and> (\<forall>t'\<in>set P. memo s t' \<longrightarrow> resolvedValue t = resolvedValue t')
            \<and> (s \<in> set Object_prototype_keys \<longrightarrow> resolvedValue t = VBuiltin s)"
    and "row_out t = write_back r c (resolvedValue t)"
proof -
  define C where "C = cache_after c u True [] pre"
  from cache_invariant [of c u pre]
  have I1: "\<And>s. s \<in> set Object_prototype_keys \<Longrightarrow> map_of C s = None"
    and I2: "\<And>s. s \<notin> set Object_prototype_keys \<Longrightarrow> js_get C s \<noteq> VUndefined \<Longrightarrow>
         \<exists>t\<in>set P. memo s t \<and> resolvedValue t = js_get C s"
    and I3: "\<And>s t. t \<in> set P \<Longrightarrow> memo s t \<Longrightarrow> js_get C s = resolvedValue t"
    unfolding C_def P_def by blast+
  have t: "t = hd (lookup_loop c u True C [r])"
    using turn_at [OF assms(1), of c u True "[]"] by (simp add: t_def C_def)
  have hit: "cache_hit True C (js_get r c) \<longleftrightarrow>
      present (js_get r c) \<and> (s \<in> set Object_prototype_keys \<or> (\<exists>t'\<in>set P. memo s t'))"
  proof -
    have "js_get C s \<noteq> VUndefined \<longleftrightarrow> s \<in> set Object_prototype_keys \<or> (\<exists>t'\<in>set P. memo s t')"
    proof
      assume "js_get C s \<noteq> VUndefined"
      with I2 [of s] show "s \<in> set Object_prototype_keys \<or> (\<exists>t'\<in>set P. memo s t')" by blast
    next
      assume "s \<in> set Object_prototype_keys \<or> (\<exists>t'\<in>set P. memo s t')"
      then show "js_get C s \<noteq> VUndefined"
      proof
        assume "s \<in> set Object_prototype_keys"
        with I1 show ?thesis by (simp add: inherited_get)
      next
        assume "\<exists>t'\<in>set P. memo s t'"
        then obtain t' where "t' \<in> set P" "memo s t'" by blast
        with I3 show ?thesis by (auto simp: memo_def)
      qed
    qed
    then show ?thesis by (simp add: cache_hit_def present_def s_def key_string_def)
  qed
  show "lookupValue t = js_get r c" by (simp add: t Let_def)
  show inv: "invoked t \<longleftrightarrow> \<not> (present (js_get r c)
            \<and> (s \<in> set Object_prototype_keys \<or> (\<exists>t'\<in>set P. memo s t')))"
    unfolding hit [symmetric] by (simp add: t Let_def)
  show "invoked t \<longrightarrow> resolvedValue t = u r" by (simp add: t Let_def)
  show "row_out t = write_back r c (resolvedValue t)" by (simp add: t Let_def)
  show "\<not> invoked t \<longrightarrow> resolvedValue t \<noteq> VUndefined
            \<and> (\<forall>t'\<in>set P. memo s t' \<longrightarrow> resolvedValue t = resolvedValue t')
            \<and> (s \<in> set Object_prototype_keys \<longrightarrow> resolvedValue t = VBuiltin s)"
  proof
    assume n: "\<not> invoked t"
    then have h: "cache_hit True C (js_get r c)" by (auto simp: t Let_def split: if_splits)
    then have v: "resolvedValue t = js_get C s" by (simp add: t Let_def s_def key_string_def)
    from h have 1: "resolvedValue t \<noteq> VUndefined"
      unfolding v by (simp add: cache_hit_def s_def key_string_def)
    have 2: "\<forall>t'\<in>set P. memo s t' \<longrightarrow> resolvedValue t = resolvedValue t'"
      unfolding v using I3 by blast
    have 3: "s \<in> set Object_prototype_keys \<longrightarrow> resolvedValue t = VBuiltin s"
      unfolding v using I1 by (simp add: inherited_get)
    from 1 2 3 show "resolvedValue t \<noteq> VUndefined
            \<and> (\<forall>t'\<in>set P. memo s t' \<longrightarrow> resolvedValue t = resolvedValue t')
            \<and> (s \<in> set Object_prototype_keys \<longrightarrow> resolvedValue t = VBuiltin s)" by blast
  qed
qed

lemma turn_general:
  fixes c :: string and u :: "row \<Rightarrow> value" and pre post :: "row list" and r :: row
    and uc :: bool and cache :: row
  assumes "rs = pre @ r # post"
  defines "t \<equiv> lookup_loop c u uc cache rs ! length pre"
  shows "invoked t \<longrightarrow> resolvedValue t = u r"
    and "\<not> uc \<longrightarrow> invoked t"
    and "row_out t = write_back r c (resolvedValue t)"
proof -
  have t: "t = hd (lookup_loop c u uc (cache_after c u uc cache pre) [r])"
    using turn_at [OF assms(1), of c u uc cache] by (simp add: t_def)
  show "invoked t \<longrightarrow> resolvedValue t = u r" by (simp add: t Let_def)
  show "\<not> uc \<longrightarrow> invoked t" by (simp add: t Let_def cache_hit_def)
  show "row_out t = write_back r c (resolvedValue t)" by (simp add: t Let_def)
qed




text \<open>
  Claim C7, amended. With or without the cache, every row leaves \<^verbatim>\<open>lookup\<close> as
  \<open>write_back\<close> makes it from the row that came in and the value resolved for it, and
  the table keeps its number of rows. The resolved value is what the resolver returns
  on the row when the resolver is invoked, which is always the case without the cache;
  otherwise it is the defined value held by the cache for the string of the key. When the
  resolved value is \<^verbatim>\<open>undefined\<close> and the column reads as something else, the key is
  deleted and the row has no property of that name afterwards; when the column reads
  as \<^verbatim>\<open>undefined\<close> already, the row is left as it is, so a row that holds the key with
  the explicit value \<^verbatim>\<open>undefined\<close> keeps the key. When the resolved value is defined
  it is assigned to the column, and the row then holds it under that name for every
  column not called \<^verbatim>\<open>__proto__\<close>. The other properties of the row stay as they were.
\<close>

theorem C7_write_back_or_delete:
  assumes "rows dt = pre @ r # post"
  shows "rows (lookup dt c u uc) ! length pre
           = write_back r c (resolvedValue (lookup_turns dt c u uc ! length pre))
    \<and> length (rows (lookup dt c u uc)) = length (rows dt)
    \<and> (invoked (lookup_turns dt c u uc ! length pre) \<longrightarrow>
         resolvedValue (lookup_turns dt c u uc ! length pre) = u r)
    \<and> (\<not> uc \<longrightarrow> invoked (lookup_turns dt c u uc ! length pre))
    \<and> (\<not> invoked (lookup_turns dt c u uc ! length pre) \<longrightarrow>
         resolvedValue (lookup_turns dt c u uc ! length pre) \<noteq> VUndefined
         \<and> (\<forall>t'\<in>set (lookup_turns (dt\<lparr>rows := pre\<rparr>) c u uc). memo (key_string r c) t' \<longrightarrow>
               resolvedValue (lookup_turns dt c u uc ! length pre) = resolvedValue t')
         \<and> (key_string r c \<in> set Object_prototype_keys \<longrightarrow>
               resolvedValue (lookup_turns dt c u uc ! length pre) = VBuiltin (key_string r c)))
    \<and> (js_get r c \<noteq> VUndefined \<longrightarrow>
         write_back r c VUndefined = js_delete r c \<and> map_of (write_back r c VUndefined) c = None)
    \<and> (js_get r c = VUndefined \<longrightarrow> write_back r c VUndefined = r)
    \<and> (v \<noteq> VUndefined \<longrightarrow> write_back r c v = js_set r c v)
    \<and> (v \<noteq> VUndefined \<and> c \<noteq> ''__proto__'' \<longrightarrow> map_of (write_back r c v) c = Some v)
    \<and> (k \<noteq> c \<longrightarrow> map_of (write_back r c v) k = map_of r k)"
proof -
  let ?t = "lookup_turns dt c u uc ! length pre"
  note g = turn_general [OF assms, where c = c and u = u and uc = uc and cache = "[]"]
  have len: "length (lookup_turns dt c u uc) = length (rows dt)"
    by (simp add: lookup_turns_def lookup_loop_length)
  have lt: "length pre < length (lookup_turns dt c u uc)" unfolding len assms by simp
  have 1: "rows (lookup dt c u uc) ! length pre = write_back r c (resolvedValue ?t)"
    using lt g(3) by (simp add: lookup_def lookup_turns_def)
  have 2: "length (rows (lookup dt c u uc)) = length (rows dt)"
    using len by (simp add: lookup_def)
  have 3: "invoked ?t \<longrightarrow> resolvedValue ?t = u r" using g(1) by (simp add: lookup_turns_def)
  have 4: "\<not> uc \<longrightarrow> invoked ?t" using g(2) by (simp add: lookup_turns_def)
  have 5: "\<not> invoked ?t \<longrightarrow>
         resolvedValue ?t \<noteq> VUndefined
         \<and> (\<forall>t'\<in>set (lookup_turns (dt\<lparr>rows := pre\<rparr>) c u uc). memo (key_string r c) t' \<longrightarrow>
               resolvedValue ?t = resolvedValue t')
         \<and> (key_string r c \<in> set Object_prototype_keys \<longrightarrow>
               resolvedValue ?t = VBuiltin (key_string r c))"
  proof (cases uc)
    case True
    with turn_characterised(4) [OF assms, of c u] show ?thesis by (simp add: lookup_turns_def)
  next
    case False
    with 4 show ?thesis by simp
  qed
  from 1 2 3 4 5 write_back_delete [of r c] write_back_untouched [of r c] write_back_set [of v r c]
    write_back_defined [of v c r] write_back_other [of k c r v]
  show ?thesis by blast
qed

theorem C7_write_back_or_delete_witness:
  "rows (lookup \<lparr>name = VUndefined,
                  rows = [[(''k'', VNum (Fin 1)), (''n'', VStr ''a'')], [(''k'', VNum (Fin 2))]]\<rparr>
           ''k'' (\<lambda>r. js_get r ''n'') True)
     = [[(''k'', VStr ''a''), (''n'', VStr ''a'')], []]
   \<and> rows (lookup \<lparr>name = VUndefined,
                  rows = [[(''k'', VNum (Fin 1)), (''n'', VStr ''a'')], [(''k'', VNum (Fin 2))]]\<rparr>
           ''k'' (\<lambda>r. js_get r ''n'') True) ! 1 = js_delete [(''k'', VNum (Fin 2))] ''k''
   \<and> map_of (write_back [(''k'', VNum (Fin 2))] ''k'' VUndefined) ''k'' = None
   \<and> map_of (write_back [(''k'', VNum (Fin 2))] ''k'' (VStr ''x'')) ''k'' = Some (VStr ''x'')"
proof -
  let ?pre = "[[(''k'', VNum (Fin 1)), (''n'', VStr ''a'')]]"
  let ?r = "[(''k'', VNum (Fin 2))]"
  let ?dt = "\<lparr>name = VUndefined, rows = ?pre @ ?r # []\<rparr>"
  let ?u = "\<lambda>r. js_get r ''n''"
  have h: "rows ?dt = ?pre @ ?r # []" by simp
  from C7_write_back_or_delete [OF h, of "''k''" ?u True "VStr ''x''" "''n''"]
  have c1: "rows (lookup ?dt ''k'' ?u True) ! length ?pre
      = write_back ?r ''k'' (resolvedValue (lookup_turns ?dt ''k'' ?u True ! length ?pre))"
    by (rule conjunct1)
  have rv: "resolvedValue (lookup_turns ?dt ''k'' ?u True ! length ?pre) = VUndefined" by code_simp
  have wb: "write_back ?r ''k'' VUndefined = js_delete ?r ''k''" by code_simp
  from c1 have "rows (lookup ?dt ''k'' ?u True) ! length ?pre = js_delete ?r ''k''"
    unfolding rv wb .
  then have a: "rows (lookup ?dt ''k'' ?u True) ! 1 = js_delete ?r ''k''" by simp
  have b: "rows (lookup ?dt ''k'' ?u True) = [[(''k'', VStr ''a''), (''n'', VStr ''a'')], []]"
    by code_simp
  have c: "map_of (write_back ?r ''k'' VUndefined) ''k'' = None" by code_simp
  have d: "map_of (write_back ?r ''k'' (VStr ''x'')) ''k'' = Some (VStr ''x'')" by code_simp
  from a b c d show ?thesis by simp
qed

text \<open>
  Claim C7 as stated fails on a row that holds the column with the explicit value
  \<^verbatim>\<open>undefined\<close>: the resolved value is \<^verbatim>\<open>undefined\<close> and the key is not deleted. It
  also fails for the column \<^verbatim>\<open>__proto__\<close>: the resolved value is defined and the row
  does not hold it afterwards.
\<close>

theorem C7_explicit_undefined_stays:
  "rows (lookup \<lparr>name = VUndefined, rows = [[(''k'', VUndefined)]]\<rparr> ''k'' (\<lambda>r. VUndefined) True)
     = [[(''k'', VUndefined)]]
   \<and> rows (lookup \<lparr>name = VUndefined, rows = [[(''a'', VNum (Fin 1))]]\<rparr> ''__proto__''
             (\<lambda>r. VStr ''x'') True)
     = [[(''a'', VNum (Fin 1))]]"
  by code_simp

text \<open>
  Claim C10. The cache is keyed by the string of the lookup key: when two rows have
  keys with the same string, the second row gets the value resolved for the first and
  the resolver is not invoked for it. The number 1 and the string \<^verbatim>\<open>1\<close> are such
  keys.
\<close>

theorem C10_memo_keyed_by_string:
  assumes "js_get r1 c = k1" and "js_get r2 c = k2"
    and "k1 \<noteq> VUndefined" "k1 \<noteq> VNull" "k2 \<noteq> VUndefined" "k2 \<noteq> VNull"
    and "toString_value k1 = toString_value k2"
    and "toString_value k1 \<notin> set Object_prototype_keys"
    and "u r1 \<noteq> VUndefined"
  shows "lookup_turns \<lparr>name = n, rows = [r1, r2]\<rparr> c u True =
           [\<lparr>lookupValue = k1, resolvedValue = u r1, invoked = True,
              row_out = write_back r1 c (u r1)\<rparr>,
            \<lparr>lookupValue = k2, resolvedValue = u r1, invoked = False,
              row_out = write_back r2 c (u r1)\<rparr>]"
proof -
  have a: "\<not> cache_hit True [] k1" using assms by (intro cache_first) auto
  have b: "cache_hit True (js_set [] (toString_value k1) (u r1)) k2
           \<and> js_get (js_set [] (toString_value k1) (u r1)) (toString_value k1) = u r1"
    using assms by (intro cache_second) auto
  from a b assms show ?thesis
    by (simp add: lookup_turns_def Let_def)
qed

theorem C10_memo_keyed_by_string_witness:
  "VNum (Fin 1) \<noteq> VStr ''1''
   \<and> toString_value (VNum (Fin 1)) = toString_value (VStr ''1'')
   \<and> lookup_turns \<lparr>name = VUndefined, rows = [[(''k'', VNum (Fin 1))], [(''k'', VStr ''1'')]]\<rparr> ''k''
        (\<lambda>r. VStr ''resolved'') True =
           [\<lparr>lookupValue = VNum (Fin 1), resolvedValue = VStr ''resolved'', invoked = True,
              row_out = [(''k'', VStr ''resolved'')]\<rparr>,
            \<lparr>lookupValue = VStr ''1'', resolvedValue = VStr ''resolved'', invoked = False,
              row_out = [(''k'', VStr ''resolved'')]\<rparr>]"
proof -
  have s: "toString_value (VNum (Fin 1)) = ''1''" by code_simp
  have g: "js_get [(''k'', VNum (Fin 1))] ''k'' = VNum (Fin 1) \<and> js_get [(''k'', VStr ''1'')] ''k'' = VStr ''1''"
    by code_simp
  have p: "''1'' \<notin> set Object_prototype_keys" by code_simp
  have w: "write_back [(''k'', VNum (Fin 1))] ''k'' (VStr ''resolved'') = [(''k'', VStr ''resolved'')]
         \<and> write_back [(''k'', VStr ''1'')] ''k'' (VStr ''resolved'') = [(''k'', VStr ''resolved'')]"
    by code_simp
  from C10_memo_keyed_by_string [of "[(''k'', VNum (Fin 1))]" "''k''" "VNum (Fin 1)"
      "[(''k'', VStr ''1'')]" "VStr ''1''" "\<lambda>r. VStr ''resolved''" VUndefined] s g p w
  show ?thesis by simp
qed



section \<open>What is written on save\<close>

lemma serializeField_tag:
  "x \<in> set (serializeField p) \<Longrightarrow> tag x = fst p \<and> snd p \<noteq> VNull \<and> snd p \<noteq> VUndefined"
  by (auto simp: serializeField_def Let_def split: if_splits option.splits)

lemma serializeRow_tags:
  "k \<in> tag ` set (children (serializeRow r)) \<Longrightarrow>
     \<exists>v. (k, v) \<in> set r \<and> v \<noteq> VNull \<and> v \<noteq> VUndefined"
  by (fastforce simp: serializeRow_def dest: serializeField_tag)

lemma stringify_props_keys:
  "(k, j) \<in> set (stringify_props r) \<Longrightarrow> \<exists>v. (k, v) \<in> set r \<and> stringify v = Some j"
  by (induction r) (auto split: option.splits)

lemma stringify_props_null: "(k, VNull) \<in> set r \<Longrightarrow> (k, JNull) \<in> set (stringify_props r)"
  by (induction r) (auto split: option.splits)

lemma stringify_rows:
  "stringify_elems (map VObj rs) = map (\<lambda>r. JObj (stringify_props r)) rs"
  by (induction rs) auto

lemma distinct_value: "distinct (map fst r) \<Longrightarrow> (k, v) \<in> set r \<Longrightarrow> (k, v') \<in> set r \<Longrightarrow> v = v'"
  by (metis eq_key_imp_eq_value)

text \<open>
  Claim C4, amended. In the markup format a column whose value is \<^verbatim>\<open>null\<close> or
  \<^verbatim>\<open>undefined\<close> has no element in its row. In the structured-text format a column
  whose value is \<^verbatim>\<open>undefined\<close> is left out, and a column whose value is
  \<^verbatim>\<open>null\<close> is written, with the value \<^verbatim>\<open>null\<close>. The rows of both documents are the
  rows of the table, one by one.
\<close>

theorem C4_null_columns_on_save:
  assumes "distinct (map fst r)" and "(k, v) \<in> set r" and "v = VNull \<or> v = VUndefined"
  shows "k \<notin> tag ` set (children (serializeRow r))
    \<and> (v = VUndefined \<longrightarrow> k \<notin> fst ` set (stringify_props r))
    \<and> (v = VNull \<longrightarrow> (k, JNull) \<in> set (stringify_props r))
    \<and> children (serializeXml dt) = map serializeRow (rows dt)
    \<and> stringify (table_value dt)
        = Some (JObj (stringify_props [(''name'', name dt)]
                      @ [(''rows'', JArr (map (\<lambda>r. JObj (stringify_props r)) (rows dt)))]))"
proof -
  have a: "k \<notin> tag ` set (children (serializeRow r))"
  proof
    assume "k \<in> tag ` set (children (serializeRow r))"
    from serializeRow_tags [OF this] obtain v' where "(k, v') \<in> set r" "v' \<noteq> VNull" "v' \<noteq> VUndefined"
      by blast
    with distinct_value [OF assms(1,2)] assms(3) show False by blast
  qed
  have b: "v = VUndefined \<longrightarrow> k \<notin> fst ` set (stringify_props r)"
  proof (intro impI notI)
    assume u: "v = VUndefined" and "k \<in> fst ` set (stringify_props r)"
    then obtain j where "(k, j) \<in> set (stringify_props r)" by auto
    from stringify_props_keys [OF this] obtain v' where v': "(k, v') \<in> set r" "stringify v' = Some j" by blast
    from distinct_value [OF assms(1,2) v'(1)] u have "v' = VUndefined" by simp
    with v'(2) show False by simp
  qed
  have c: "v = VNull \<longrightarrow> (k, JNull) \<in> set (stringify_props r)"
    using assms(2) stringify_props_null by blast
  have d: "children (serializeXml dt) = map serializeRow (rows dt)"
    by (simp add: serializeXml_def)
  have e: "stringify (table_value dt)
        = Some (JObj (stringify_props [(''name'', name dt)]
                      @ [(''rows'', JArr (map (\<lambda>r. JObj (stringify_props r)) (rows dt)))]))"
    by (simp add: table_value_def stringify_rows split: option.splits)
  from a b c d e show ?thesis by blast
qed

theorem C4_null_columns_on_save_witness:
  "''c'' \<notin> tag ` set (children (serializeRow [(''a'', VNum (Fin 1)), (''c'', VNull)]))
   \<and> (''c'', JNull) \<in> set (stringify_props [(''a'', VNum (Fin 1)), (''c'', VNull)])"
proof -
  have h: "distinct (map fst [(''a'', VNum (Fin 1)), (''c'', VNull)])
       \<and> (''c'', VNull) \<in> set [(''a'', VNum (Fin 1)), (''c'', VNull)]" by simp
  from C4_null_columns_on_save [of "[(''a'', VNum (Fin 1)), (''c'', VNull)]" "''c''" VNull] h
  show ?thesis by blast
qed

text \<open>
  Claim C4 as stated fails for the structured-text format: saving a row with a
  \<^verbatim>\<open>null\<close> column to a \<^verbatim>\<open>.json\<close> file writes that column.
\<close>

theorem C4_json_writes_null:
  "(case save \<lparr>name = VUndefined, rows = [[(''a'', VNum (Fin 1)), (''c'', VNull)]]\<rparr>
           ''t.json'' Map.empty of
      Inr fs \<Rightarrow>
        (case fs ''t.json'' of
           Some (JsonText j) \<Rightarrow> j = JObj [(''rows'', JArr [JObj [(''a'', JNum 1), (''c'', JNull)]])]
         | _ \<Rightarrow> False)
    | Inl e \<Rightarrow> False)"
  by code_simp


section \<open>Digits, integers and days\<close>

lemma digit_cases: "0 \<le> d \<Longrightarrow> d \<le> 9 \<Longrightarrow> d \<in> {0, 1, 2, 3, 4, 5, 6, 7, 8, 9 :: int}"
  by simp arith

lemma digit_char_ok:
  assumes "0 \<le> d" "d \<le> 9"
  shows "is_digit (digit_char d) \<and> digit_val (digit_char d) = d"
proof -
  from digit_cases [OF assms] show ?thesis
    by (auto simp: digit_char_def is_digit_def digit_val_def)
qed

lemma dec_val_snoc: "dec_val (ds @ [c]) = 10 * dec_val ds + digit_val c"
  by (simp add: dec_val_def)

lemma dec_digits_ok: "0 \<le> n \<Longrightarrow> list_all is_digit (dec_digits n) \<and> dec_val (dec_digits n) = n"
proof (induction n rule: dec_digits.induct)
  case (1 n)
  show ?case
  proof (cases "n < 10")
    case True
    with 1 digit_char_ok [of n] show ?thesis
      by (subst (1 2) dec_digits.simps) (simp add: dec_val_def)
  next
    case False
    with 1 have ih: "list_all is_digit (dec_digits (n div 10)) \<and> dec_val (dec_digits (n div 10)) = n div 10"
      by simp
    have "0 \<le> n mod 10" "n mod 10 \<le> 9" by simp_all
    from digit_char_ok [OF this] ih False show ?thesis
      by (subst (1 2) dec_digits.simps) (simp add: dec_val_snoc)
  qed
qed

lemma dec_digits_len1: "n < 10 \<Longrightarrow> length (dec_digits n) = 1"
  by (subst dec_digits.simps) simp

lemma dec_digits_len2: "n < 100 \<Longrightarrow> length (dec_digits n) \<le> 2"
  by (subst dec_digits.simps) (simp add: dec_digits_len1)

lemma dec_digits_len3: "n < 1000 \<Longrightarrow> length (dec_digits n) \<le> 3"
  using dec_digits_len2 [of "n div 10"] by (subst dec_digits.simps) simp

lemma dec_digits_len4: "n < 10000 \<Longrightarrow> length (dec_digits n) \<le> 4"
  using dec_digits_len3 [of "n div 10"] by (subst dec_digits.simps) simp

lemma dec_val_zeros_aux: "foldl (\<lambda>a c. 10 * a + digit_val c) 0 (replicate k CHR ''0'') = 0"
  by (induction k) (simp_all add: digit_val_def)

lemma dec_val_pad: "dec_val (pad k ds) = dec_val ds"
  by (simp add: pad_def dec_val_def dec_val_zeros_aux)

lemma pad_ok:
  assumes "length ds \<le> k" "list_all is_digit ds"
  shows "length (pad k ds) = k \<and> list_all is_digit (pad k ds)"
proof -
  have "is_digit CHR ''0''" by (simp add: is_digit_def)
  with assms show ?thesis by (auto simp: pad_def list_all_iff)
qed

lemma field_ok:
  assumes "0 \<le> n" "length (dec_digits n) \<le> k"
  shows "length (pad k (dec_digits n)) = k \<and> list_all is_digit (pad k (dec_digits n))
         \<and> dec_val (pad k (dec_digits n)) = n"
  using pad_ok [OF assms(2)] dec_digits_ok [OF assms(1)] by (simp add: dec_val_pad)

lemma ipow_power: "0 \<le> e \<Longrightarrow> ipow b e = b ^ nat e"
proof (induction b e rule: ipow.induct)
  case (1 b e)
  show ?case
  proof (cases "e \<le> 0")
    case True
    with 1 show ?thesis by (subst ipow.simps) simp
  next
    case False
    show ?thesis
    proof (cases "even e")
      case True
      with False 1 have "ipow b (e div 2) = b ^ nat (e div 2)" by simp
      moreover from True False have "nat e = nat (e div 2) + nat (e div 2)" by (auto elim!: evenE)
      ultimately show ?thesis using True False
        by (subst ipow.simps) (simp add: Let_def power_add)
    next
      case odd: False
      with False 1 have "ipow b (e - 1) = b ^ nat (e - 1)" by simp
      moreover from False have "nat e = Suc (nat (e - 1))" by simp
      ultimately show ?thesis using odd False by (subst ipow.simps) simp
    qed
  qed
qed

lemma nbits_le: "n < 2 ^ k \<Longrightarrow> nbits n \<le> int k"
proof (induction k arbitrary: n)
  case 0
  then show ?case by (subst nbits.simps) simp
next
  case (Suc k)
  from Suc.prems have "n div 2 < 2 ^ k" by simp
  from Suc.IH [OF this] show ?case by (subst nbits.simps) simp
qed

lemma nbits_one: "nbits 1 = 1"
  by (subst nbits.simps, subst nbits.simps) simp

lemma round_half_even_int: "round_half_even (of_int k) = k"
  by (simp add: round_half_even_def)

lemma rnd_int:
  assumes "0 \<le> n" "n < 2 ^ 53"
  shows "rnd (of_int n) = Fin (of_int n)"
proof (cases "n = 0")
  case True
  then show ?thesis by (simp add: rnd_def)
next
  case False
  with assms have pos: "0 < n" by simp
  have q: "quotient_of (rat_of_int n) = (n, 1)" by simp
  from nbits_le [OF assms(2)] have e0: "nbits n - 1 \<le> 52" by simp
  define e where "e = max (ilog2 (rat_of_int n)) (- 1022)"
  have "ilog2 (rat_of_int n) \<le> 52"
    using e0 by (simp add: ilog2_def q nbits_one Let_def)
  then have le: "e \<le> 52" by (simp add: e_def)
  define p where "p = ipow 2 (52 - e)"
  have ppos: "0 < p" unfolding p_def by (rule ipow_pos) simp
  have ulp: "pow2 (e - 52) = 1 / rat_of_int p"
  proof (cases "e = 52")
    case True
    then show ?thesis by (simp add: pow2_def p_def ipow.simps)
  next
    case False
    with le show ?thesis by (simp add: pow2_def p_def)
  qed
  have d: "rat_of_int n / pow2 (e - 52) = rat_of_int (n * p)" by (simp add: ulp)
  have r: "rat_of_int (round_half_even (rat_of_int n / pow2 (e - 52))) * pow2 (e - 52) = rat_of_int n"
    unfolding d round_half_even_int using ppos by (simp add: ulp)
  have "(2::int) ^ 53 \<le> 2 ^ 1024" by (rule power_increasing) simp_all
  with assms(2) have "n < 2 ^ 1024" by linarith
  then have "rat_of_int n < rat_of_int (2 ^ 1024)" by (simp only: of_int_less_iff)
  then have big: "\<not> pow2 1024 \<le> rat_of_int n"
    by (simp add: pow2_def ipow_power)
  from pos have "rnd (rat_of_int n) = rnd_pos (rat_of_int n)" by (simp add: rnd_def)
  also have "\<dots> = Fin (rat_of_int n)"
    using r big by (simp add: rnd_pos_def Let_def e_def [symmetric])
  finally show ?thesis .
qed

lemma div_bounds:
  fixes x n :: int
  assumes "0 < n"
  shows "n * (x div n) \<le> x \<and> x < n * (x div n) + n"
proof -
  have "n * (x div n) + x mod n = x" by (rule mult_div_mod_eq)
  moreover from assms have "0 \<le> x mod n" "x mod n < n" by simp_all
  ultimately show ?thesis by linarith
qed

lemma DayFromYear_bounds:
  "146097 * (y - 1970) - 506 \<le> 400 * DayFromYear y
   \<and> 400 * DayFromYear y \<le> 146097 * (y - 1970) + 589"
proof -
  define a where "a = (y - 1969) div 4"
  define b where "b = (y - 1901) div 100"
  define c where "c = (y - 1601) div 400"
  have fa: "4 * a \<le> y - 1969 \<and> y - 1969 < 4 * a + 4"
    unfolding a_def by (rule div_bounds) simp
  have fb: "100 * b \<le> y - 1901 \<and> y - 1901 < 100 * b + 100"
    unfolding b_def by (rule div_bounds) simp
  have fc: "400 * c \<le> y - 1601 \<and> y - 1601 < 400 * c + 400"
    unfolding c_def by (rule div_bounds) simp
  have D: "DayFromYear y = 365 * (y - 1970) + a - b + c"
    by (simp add: DayFromYear_def a_def b_def c_def)
  from fa fb fc show ?thesis unfolding D by (simp add: algebra_simps)
qed

lemma year_span: "DayFromYear (y + 1) - DayFromYear y \<le> 367"
  using DayFromYear_bounds [of y] DayFromYear_bounds [of "y + 1"] by (simp add: algebra_simps)

lemma estimate_low:
  assumes "146097 * (z - 1970) \<le> 400 * d"
  shows "DayFromYear (z - 1) \<le> d"
  using assms DayFromYear_bounds [of "z - 1"] by (simp add: algebra_simps)

lemma estimate_high:
  assumes "400 * d < 146097 * (z - 1970) + 146097"
  shows "d < DayFromYear (z + 2)"
  using assms DayFromYear_bounds [of "z + 2"] by (simp add: algebra_simps)

lemma year_from_day: "DayFromYear (YearFromDay d) \<le> d \<and> d < DayFromYear (YearFromDay d + 1)"
proof -
  define q where "q = (d * 400) div 146097"
  define z where "z = 1970 + q"
  have "146097 * q \<le> d * 400 \<and> d * 400 < 146097 * q + 146097"
    unfolding q_def by (rule div_bounds) simp
  then have b1: "146097 * (z - 1970) \<le> 400 * d" and b2: "400 * d < 146097 * (z - 1970) + 146097"
    unfolding z_def by simp_all
  from estimate_low [OF b1] estimate_high [OF b2]
  have l: "DayFromYear (z - 1) \<le> d" and h: "d < DayFromYear (z + 2)" .
  have e: "z + 1 + 1 = z + 2" by simp
  have Y: "YearFromDay d = (if d < DayFromYear z then z - 1
         else if DayFromYear (z + 1) \<le> d then z + 1 else z)"
    by (simp add: YearFromDay_def Let_def z_def q_def)
  from l h e show ?thesis unfolding Y by (auto simp: add.commute)
qed


section \<open>Saving and loading\<close>

text \<open>
  Claim C8. A file name whose extension, in lower case, is neither \<^verbatim>\<open>.json\<close> nor
  \<^verbatim>\<open>.xml\<close> makes \<^verbatim>\<open>save\<close> fail, and one whose extension is none of \<^verbatim>\<open>.json\<close>,
  \<^verbatim>\<open>.xml\<close>, \<^verbatim>\<open>.xlsx\<close> makes \<^verbatim>\<open>load\<close> fail, with an error whose message names
  the extension; the failure is the whole result, so nothing is written and no table is
  returned.
\<close>

theorem C8_unsupported_extension:
  "(toLowerCase (extname fileName) \<noteq> ''.json'' \<and> toLowerCase (extname fileName) \<noteq> ''.xml''
      \<longrightarrow> save dt fileName fs
            = Inl (Error (''Format \"'' @ toLowerCase (extname fileName) @ ''\" not supported'')))
   \<and> (toLowerCase (extname fileName) \<noteq> ''.json'' \<and> toLowerCase (extname fileName) \<noteq> ''.xml''
        \<and> toLowerCase (extname fileName) \<noteq> ''.xlsx''
      \<longrightarrow> load fs fileName
            = Inl (Error (''Format \"'' @ toLowerCase (extname fileName) @ ''\" not supported'')))"
  by (simp add: save_def load_def unsupported_def Let_def)

theorem C8_unsupported_extension_witness:
  "toLowerCase (extname ''contacts.CSV'') \<noteq> ''.json''
   \<and> toLowerCase (extname ''contacts.CSV'') \<noteq> ''.xml''
   \<and> toLowerCase (extname ''contacts.CSV'') \<noteq> ''.xlsx''
   \<and> save \<lparr>name = VUndefined, rows = []\<rparr> ''contacts.CSV'' Map.empty
        = Inl (Error ''Format \".csv\" not supported'')
   \<and> load Map.empty ''contacts.CSV'' = Inl (Error ''Format \".csv\" not supported'')"
proof -
  have e: "toLowerCase (extname ''contacts.CSV'') = ''.csv''" by code_simp
  from C8_unsupported_extension [of "''contacts.CSV''" "\<lparr>name = VUndefined, rows = []\<rparr>" Map.empty]
  show ?thesis unfolding e by simp
qed

lemma revive_defined:
  "revive j \<noteq> VUndefined"
  by (cases j) (auto simp: JSONDataReviver_def Let_def parseDates_def split: option.splits)

lemma object_of_keys:
  "map_of (foldl (\<lambda>obj p. define_own obj (fst p) (snd p)) acc ps) k = None
     \<longleftrightarrow> map_of acc k = None \<and> k \<notin> set (map fst ps)"
  by (induction ps arbitrary: acc) (auto simp: define_own_conv)

lemma object_of_defined:
  "map_of acc k \<noteq> Some VUndefined \<Longrightarrow> \<forall>p\<in>set ps. snd p \<noteq> VUndefined \<Longrightarrow>
     map_of (foldl (\<lambda>obj p. define_own obj (fst p) (snd p)) acc ps) k \<noteq> Some VUndefined"
  by (induction ps arbitrary: acc) (auto simp: define_own_conv)

lemma revive_props_fst: "map fst (revive_props ps) = map fst ps"
  by (induction ps) auto

lemma revive_props_snd: "\<forall>p\<in>set (revive_props ps). snd p \<noteq> VUndefined"
  by (induction ps) (auto simp: revive_defined)

lemma revive_props_keys:
  "map_of (object_of (revive_props ps)) k = None \<longleftrightarrow> k \<notin> set (map fst ps)"
  using object_of_keys [of "[]" "revive_props ps" k] by (simp add: object_of_def revive_props_fst)

lemma revive_props_defined: "map_of (object_of (revive_props ps)) k \<noteq> Some VUndefined"
  using object_of_defined [of "[]" k "revive_props ps"] revive_props_snd [of ps]
  by (simp add: object_of_def)

lemma rows_not_inherited: "''rows'' \<notin> set Object_prototype_keys"
  by (simp add: Object_prototype_keys_def)

lemma revive_has_rows:
  "(js_member (revive j) ''rows'' = VUndefined) = (\<not> has_rows j)"
proof (cases j)
  case (JObj ps)
  have "(js_get (object_of (revive_props ps)) ''rows'' = VUndefined) = (''rows'' \<notin> set (map fst ps))"
    using revive_props_keys [of ps "''rows''"] revive_props_defined [of ps "''rows''"]
    by (auto simp: js_get_def rows_not_inherited split: option.splits)
  with JObj show ?thesis
    by (simp add: js_member_def JSONDataReviver_def has_rows_def)
qed (auto simp: js_member_def JSONDataReviver_def has_rows_def Let_def parseDates_def split: option.splits)

text \<open>
  Claim C9, amended. When a \<^verbatim>\<open>.json\<close> file holds a document without a member
  \<^verbatim>\<open>rows\<close>, the load fails with the malformed-table message if the value read is
  truthy, as every object and every array is, and returns the value read, without an
  error, if it is falsy.
\<close>

theorem C9_missing_rows:
  assumes "toLowerCase (extname fileName) = ''.json''" and "fs fileName = Some (JsonText j)"
  shows "load fs fileName =
           (if js_truthy (revive j) \<and> \<not> has_rows j
            then Inl (Thrown ''The parsed file doesn't look like a DataTable'')
            else Inr (Parsed (revive j)))
         \<and> js_truthy (revive (JObj ps)) \<and> js_truthy (revive (JArr xs))"
proof -
  have a: "load fs fileName =
           (if js_truthy (revive j) \<and> \<not> has_rows j
            then Inl (Thrown ''The parsed file doesn't look like a DataTable'')
            else Inr (Parsed (revive j)))"
    using assms revive_has_rows [of j] by (simp add: load_def Let_def)
  have b: "js_truthy (revive (JObj ps))" by (simp add: JSONDataReviver_def js_truthy_def)
  have c: "js_truthy (revive (JArr xs))" by (simp add: JSONDataReviver_def js_truthy_def)
  from a b c show ?thesis by blast
qed

theorem C9_missing_rows_witness:
  "load (\<lambda>f. Some (JsonText (JObj [(''name'', JStr ''t'')]))) ''t.json''
     = Inl (Thrown ''The parsed file doesn't look like a DataTable'')"
proof -
  have e: "toLowerCase (extname ''t.json'') = ''.json''" by code_simp
  have t: "js_truthy (revive (JObj [(''name'', JStr ''t'')])) \<and> \<not> has_rows (JObj [(''name'', JStr ''t'')])"
    by code_simp
  from C9_missing_rows [OF e, of "\<lambda>f. Some (JsonText (JObj [(''name'', JStr ''t'')]))" "JObj [(''name'', JStr ''t'')]"] t
  show ?thesis by simp
qed

text \<open>
  Claim C9 as stated fails for the document \<^verbatim>\<open>null\<close>: it is valid, has no
  \<^verbatim>\<open>rows\<close>, and is returned by \<^verbatim>\<open>load\<close> without an error.
\<close>

theorem C9_null_document_loads:
  "load (\<lambda>f. Some (JsonText JNull)) ''t.json'' = Inr (Parsed VNull)"
  by code_simp


end
